theory Spec2Isabelle
  imports Complex_Main "HOL-Library.AList"
begin

section \<open>Numbers\<close>

text \<open>
  The objective values and coordinates handled by \<^verbatim>\<open>main.py\<close> and \<^verbatim>\<open>plot.py\<close> are
  Python and numpy floats. The code never does arithmetic on them: it stores them, compares
  them (\<^verbatim>\<open>y < best_y\<close>) and starts from \<^verbatim>\<open>np.inf\<close>. A float is therefore modelled by
  what a comparison can see of it: not-a-number, an infinity, or a finite value (a real
  number; rounding plays no part).
\<close>

datatype pyfloat = NaN | NegInf | Fin real | PosInf

text \<open>Python's \<^verbatim>\<open><\<close> on floats: every comparison with a NaN is false.\<close>

fun flt :: "pyfloat \<Rightarrow> pyfloat \<Rightarrow> bool" where
  "flt NaN _ = False"
| "flt _ NaN = False"
| "flt PosInf _ = False"
| "flt _ NegInf = False"
| "flt NegInf _ = True"
| "flt (Fin a) (Fin b) = (a < b)"
| "flt (Fin a) PosInf = True"

text \<open>Python's \<^verbatim>\<open><=\<close> on floats.\<close>

fun fle :: "pyfloat \<Rightarrow> pyfloat \<Rightarrow> bool" where
  "fle NaN _ = False"
| "fle _ NaN = False"
| "fle NegInf _ = True"
| "fle _ PosInf = True"
| "fle PosInf _ = False"
| "fle _ NegInf = False"
| "fle (Fin a) (Fin b) = (a \<le> b)"

section \<open>plot.py\<close>

text \<open>
  \<^verbatim>\<open>
  def get_best_ys(ys):
      best_y = np.inf
      best_ys = []
      for y in ys:
          if y < best_y:
              best_y = y
          best_ys.append(best_y)
      return best_ys
  \<close>
  The loop carries \<^verbatim>\<open>best_y\<close> and the list \<^verbatim>\<open>best_ys\<close> built so far.
\<close>

fun get_best_ys_loop :: "pyfloat \<Rightarrow> pyfloat list \<Rightarrow> pyfloat list \<Rightarrow> pyfloat list" where
  "get_best_ys_loop best_y best_ys [] = best_ys"
| "get_best_ys_loop best_y best_ys (y # ys) =
     (let best_y' = (if flt y best_y then y else best_y)
      in get_best_ys_loop best_y' (best_ys @ [best_y']) ys)"

declare get_best_ys_loop.simps(2) [simp del]

definition get_best_ys :: "pyfloat list \<Rightarrow> pyfloat list" where
  "get_best_ys ys = get_best_ys_loop PosInf [] ys"

subsection \<open>What the claims about the running best mean\<close>

text \<open>
  \<open>m\<close> is the minimum of a sequence when it is one of its elements and is \<^verbatim>\<open><=\<close> each of
  them.
\<close>

definition is_minimum_of :: "pyfloat \<Rightarrow> pyfloat list \<Rightarrow> bool" where
  "is_minimum_of m ys = (m \<in> set ys \<and> (\<forall>y \<in> set ys. fle m y))"

text \<open>
  \<open>out\<close> is the running minimum of \<open>ys\<close>: same length, and the element at index \<open>i\<close> is the
  minimum of \<^verbatim>\<open>ys[0..i]\<close>, bounds included.
\<close>

definition running_minimum :: "pyfloat list \<Rightarrow> pyfloat list \<Rightarrow> bool" where
  "running_minimum ys out =
     (length out = length ys \<and> (\<forall>i < length ys. is_minimum_of (out ! i) (take (Suc i) ys)))"

text \<open>Monotone sequences, with Python's \<^verbatim>\<open><=\<close>: every later element against every earlier one.\<close>

definition non_increasing :: "pyfloat list \<Rightarrow> bool" where
  "non_increasing xs = (\<forall>j < length xs. \<forall>i \<le> j. fle (xs ! j) (xs ! i))"

definition non_decreasing :: "pyfloat list \<Rightarrow> bool" where
  "non_decreasing xs = (\<forall>j < length xs. \<forall>i \<le> j. fle (xs ! i) (xs ! j))"

section \<open>main.py: data\<close>

text \<open>The exceptions the driver can end with; \<open>LibraryError\<close> is any error of a collaborator.\<close>

datatype error = AttributeError | IndexError | ValueError | TypeError | LibraryError

text \<open>
  A two-dimensional numpy array of floats: its second dimension and its rows. (The second
  dimension is kept apart from the rows because \<^verbatim>\<open>np.concatenate\<close> compares it also when an
  array has no row.)
\<close>

record ndarray =
  ncols :: nat
  rows :: "pyfloat list list"

text \<open>
  A categorical choice of the library is \<^verbatim>\<open>None\<close>, a \<^verbatim>\<open>bool\<close>, an \<^verbatim>\<open>int\<close>, a \<^verbatim>\<open>float\<close> or a
  \<^verbatim>\<open>str\<close>. The first three kinds of number are not told apart: numpy makes numbers of them
  all.
\<close>

datatype choice = Number pyfloat | Str string | NoneChoice

text \<open>
  The descriptors of a search space. \<^verbatim>\<open>get_candidate\<close> tests for the two classes
  \<^verbatim>\<open>FloatDistribution\<close> and \<^verbatim>\<open>CategoricalDistribution\<close> only; every other class of the
  library is \<open>OtherDistribution\<close>.
\<close>

datatype distribution =
    FloatDistribution pyfloat pyfloat
  | CategoricalDistribution "choice list"
  | OtherDistribution

text \<open>
  \<^verbatim>\<open>func.distributions\<close> is a dict; it is modelled by its items in key order (the keys of a
  dict are pairwise distinct).
\<close>

type_synonym search_space = "(string \<times> distribution) list"

text \<open>\<^verbatim>\<open>class SamplerName(str, Enum)\<close>: each member is its string.\<close>

definition TPE :: string where "TPE = ''TPE''"
definition EIGammaPrior :: string where "EIGammaPrior = ''EI GammaPrior''"
definition EIDimScaledPrior :: string where "EIDimScaledPrior = ''EI DimScaledPrior''"
definition EISaas :: string where "EISaas = ''EI Saas''"
definition LogEIGammaPrior :: string where "LogEIGammaPrior = ''LogEI GammaPrior''"
definition LogEIDimScaledPrior :: string where "LogEIDimScaledPrior = ''LogEI DimScaledPrior''"
definition LCB :: string where "LCB = ''LCB''"
definition ThompsonSampling :: string where "ThompsonSampling = ''thompson sampling''"
definition EXPERIMENTAL :: string where "EXPERIMENTAL = ''experimental''"

definition SamplerName :: "string list" where
  "SamplerName = [TPE, EIGammaPrior, EIDimScaledPrior, EISaas, LogEIGammaPrior,
     LogEIDimScaledPrior, LCB, ThompsonSampling, EXPERIMENTAL]"

text \<open>The acquisition functions imported from \<^verbatim>\<open>candidates_funcs\<close>, and the samplers built on them.\<close>

datatype candidates_func =
    ei_gammma_prior | ei_dim_scaled_prior | logei_gammma_prior | logei_dim_scaled_prior
  | lcb | ei_saas | experimental | thompson_sampling

datatype sampler = TPESampler | BoTorchSampler candidates_func

text \<open>
  An \<^verbatim>\<open>Optimizer\<close> object: its two attributes, \<open>None\<close> while an attribute has not been
  assigned. A study is held by its handle.
\<close>

record optimizer =
  sampler :: "sampler option"
  study :: "nat option"

text \<open>The trial that \<^verbatim>\<open>optuna.trial.create_trial(params, distributions, value)\<close> builds.\<close>

datatype frozen_trial = FrozenTrial "(string \<times> pyfloat) list" search_space pyfloat

section \<open>main.py: the collaborators\<close>

text \<open>
  The optimisation library and the test function are not part of the repository. The
  driver's calls to them are recorded, in order, in a history; a study is known by the
  position of the call that created it, a trial by the position of the \<^verbatim>\<open>ask\<close> that
  returned it.
\<close>

datatype event =
    CreateStudy string sampler
  | AddTrial nat frozen_trial
  | Ask nat
  | SuggestFloat nat string pyfloat pyfloat
  | SuggestCategorical nat string "choice list"
  | RandomX

text \<open>
  The library is stateful and random, so what it answers to a call may depend on every
  call before it: each of its operations is a parameter that takes the history so far.
  An operation that returns nothing answers with the error it raises, if any.
\<close>

record optuna =
  optuna_create_study :: "event list \<Rightarrow> string \<Rightarrow> sampler \<Rightarrow> error option"
  optuna_create_trial :: "(string \<times> pyfloat) list \<Rightarrow> search_space \<Rightarrow> pyfloat \<Rightarrow> error option"
  optuna_add_trial :: "event list \<Rightarrow> nat \<Rightarrow> frozen_trial \<Rightarrow> error option"
  optuna_ask :: "event list \<Rightarrow> nat \<Rightarrow> error option"
  optuna_suggest_float :: "event list \<Rightarrow> nat \<Rightarrow> string \<Rightarrow> pyfloat \<Rightarrow> pyfloat \<Rightarrow> error + pyfloat"
  optuna_suggest_categorical :: "event list \<Rightarrow> nat \<Rightarrow> string \<Rightarrow> choice list \<Rightarrow> error + choice"

text \<open>
  A test function (\<^verbatim>\<open>TargetFunction\<close>). The classes of \<^verbatim>\<open>test_functions.single_objective\<close>
  are not among the sources, so the test function is a parameter: \<^verbatim>\<open>f\<close> is a deterministic
  function of the batch it is given and does not write into it; \<^verbatim>\<open>random_x\<close> is random, so
  it takes the history.
\<close>

record target_function =
  func_f :: "ndarray \<Rightarrow> error + ndarray"
  func_random_x :: "event list \<Rightarrow> error + ndarray"
  func_distributions :: search_space

section \<open>main.py: state and effects\<close>

text \<open>
  numpy arrays are objects: a variable holds a reference, and two variables can hold the
  same one. The store \<open>heap\<close> maps a reference (an index) to the array's contents; a new
  array is added at its end. Python has no reference to an array that does not exist: the
  references given to the driver are those of arrays of the store (\<open>r < length (heap st)\<close>),
  which the theorems ask for where an array is read through them.
\<close>

record state =
  hist :: "event list"
  heap :: "ndarray list"

type_synonym 'a io = "state \<Rightarrow> (error + 'a) \<times> state"

definition return_io :: "'a \<Rightarrow> 'a io" where
  "return_io a st = (Inr a, st)"

definition raise_io :: "error \<Rightarrow> 'a io" where
  "raise_io e st = (Inl e, st)"

definition lift_io :: "error + 'a \<Rightarrow> 'a io" where
  "lift_io r st = (r, st)"

definition bind_io :: "'a io \<Rightarrow> ('a \<Rightarrow> 'b io) \<Rightarrow> 'b io" where
  "bind_io m k st =
     (case m st of
        (Inl e, st') \<Rightarrow> (Inl e, st')
      | (Inr a, st') \<Rightarrow> k a st')"

text \<open>A call to a collaborator: its answer to the history so far, and the call recorded.\<close>

definition external :: "event \<Rightarrow> (event list \<Rightarrow> error + 'a) \<Rightarrow> 'a io" where
  "external ev answer st = (answer (hist st), st\<lparr>hist := hist st @ [ev]\<rparr>)"

definition raises :: "error option \<Rightarrow> 'a \<Rightarrow> error + 'a" where
  "raises r a = (case r of Some e \<Rightarrow> Inl e | None \<Rightarrow> Inr a)"

definition alloc :: "ndarray \<Rightarrow> nat io" where
  "alloc a st = (Inr (length (heap st)), st\<lparr>heap := heap st @ [a]\<rparr>)"

definition deref :: "nat \<Rightarrow> ndarray io" where
  "deref r st = (Inr (heap st ! r), st)"

text \<open>\<^verbatim>\<open>a.copy()\<close> and \<^verbatim>\<open>np.concatenate([a, b])\<close> (along the first axis): both return a new array.\<close>

definition np_copy :: "nat \<Rightarrow> nat io" where
  "np_copy r = bind_io (deref r) alloc"

definition np_concatenate :: "nat \<Rightarrow> nat \<Rightarrow> nat io" where
  "np_concatenate r1 r2 =
     bind_io (deref r1) (\<lambda>a.
     bind_io (deref r2) (\<lambda>b.
       if ncols a = ncols b then alloc \<lparr>ncols = ncols a, rows = rows a @ rows b\<rparr>
       else raise_io ValueError))"

text \<open>\<^verbatim>\<open>func.f(X)\<close> and \<^verbatim>\<open>func.random_x()\<close>.\<close>

definition call_f :: "target_function \<Rightarrow> nat \<Rightarrow> nat io" where
  "call_f func r = bind_io (deref r) (\<lambda>x. bind_io (lift_io (func_f func x)) alloc)"

definition call_random_x :: "target_function \<Rightarrow> nat io" where
  "call_random_x func = bind_io (external RandomX (func_random_x func)) alloc"

section \<open>main.py: the Optimizer class\<close>

text \<open>
  \<^verbatim>\<open>
  def __init__(self, sampler_name: SamplerName):
      if sampler_name == SamplerName.TPE:
          self.sampler = optuna.samplers.TPESampler()
      elif sampler_name == SamplerName.LCB:
          self.sampler = optuna.integration.BoTorchSampler(candidates_func=lcb)
      ...
      else:
          pass
  \<close>
  The annotation is not enforced, and a member of \<^verbatim>\<open>SamplerName\<close> is equal to its string:
  the argument is any string.
\<close>

definition Optimizer_init :: "string \<Rightarrow> optimizer" where
  "Optimizer_init sampler_name =
     (if sampler_name = TPE then \<lparr>sampler = Some TPESampler, study = None\<rparr>
      else if sampler_name = LCB then \<lparr>sampler = Some (BoTorchSampler lcb), study = None\<rparr>
      else if sampler_name = EIGammaPrior then
        \<lparr>sampler = Some (BoTorchSampler ei_gammma_prior), study = None\<rparr>
      else if sampler_name = EIDimScaledPrior then
        \<lparr>sampler = Some (BoTorchSampler ei_dim_scaled_prior), study = None\<rparr>
      else if sampler_name = EISaas then \<lparr>sampler = Some (BoTorchSampler ei_saas), study = None\<rparr>
      else if sampler_name = LogEIGammaPrior then
        \<lparr>sampler = Some (BoTorchSampler logei_gammma_prior), study = None\<rparr>
      else if sampler_name = LogEIDimScaledPrior then
        \<lparr>sampler = Some (BoTorchSampler logei_dim_scaled_prior), study = None\<rparr>
      else if sampler_name = ThompsonSampling then
        \<lparr>sampler = Some (BoTorchSampler thompson_sampling), study = None\<rparr>
      else if sampler_name = EXPERIMENTAL then
        \<lparr>sampler = Some (BoTorchSampler experimental), study = None\<rparr>
      else \<lparr>sampler = None, study = None\<rparr>)"

text \<open>
  \<^verbatim>\<open>
  def create_study(self, direction):
      self.study = optuna.create_study(direction=direction, sampler=self.sampler)
  \<close>
  Reading an attribute that was never assigned raises \<^verbatim>\<open>AttributeError\<close>; the arguments
  are evaluated before the call.
\<close>

definition create_study :: "optuna \<Rightarrow> optimizer \<Rightarrow> string \<Rightarrow> optimizer io" where
  "create_study lib self dir =
     (case sampler self of
        None \<Rightarrow> raise_io AttributeError
      | Some s \<Rightarrow>
          bind_io (external (CreateStudy dir s)
                     (\<lambda>h. raises (optuna_create_study lib h dir s) (length h)))
            (\<lambda>new_study. return_io (self\<lparr>study := Some new_study\<rparr>)))"

text \<open>
  \<^verbatim>\<open>
  def _set_samples(self, Xs, ys, distributions):
      features = list(distributions.keys())
      for X, y in zip(Xs, ys):
          params = {}
          for feature, x in zip(features, X):
              params[feature] = x
          trial = optuna.trial.create_trial(params=params, distributions=distributions, value=y[0])
          self.study.add_trial(trial)
  \<close>
  \<^verbatim>\<open>zip\<close> stops at the shorter of its arguments; \<^verbatim>\<open>y[0]\<close> raises \<^verbatim>\<open>IndexError\<close> on an
  empty row.
\<close>

fun set_samples_loop ::
  "optuna \<Rightarrow> optimizer \<Rightarrow> search_space \<Rightarrow> (pyfloat list \<times> pyfloat list) list \<Rightarrow> unit io" where
  "set_samples_loop lib self distributions [] = return_io ()"
| "set_samples_loop lib self distributions ((X, y) # rest) =
     (let params = zip (map fst distributions) X in
      case y of
        [] \<Rightarrow> raise_io IndexError
      | y0 # _ \<Rightarrow>
          bind_io (lift_io (raises (optuna_create_trial lib params distributions y0)
                     (FrozenTrial params distributions y0))) (\<lambda>trial.
            case study self of
              None \<Rightarrow> raise_io AttributeError
            | Some h \<Rightarrow>
                bind_io (external (AddTrial h trial)
                           (\<lambda>hs. raises (optuna_add_trial lib hs h trial) ()))
                  (\<lambda>_. set_samples_loop lib self distributions rest)))"

definition set_samples :: "optuna \<Rightarrow> optimizer \<Rightarrow> nat \<Rightarrow> nat \<Rightarrow> search_space \<Rightarrow> unit io" where
  "set_samples lib self Xs ys distributions =
     bind_io (deref Xs) (\<lambda>Xs_array.
     bind_io (deref ys) (\<lambda>ys_array.
       set_samples_loop lib self distributions (zip (rows Xs_array) (rows ys_array))))"

text \<open>
  \<^verbatim>\<open>
  def get_candidate(self, Xs, ys, distributions):
      self._set_samples(Xs, ys, distributions)
      trial = self.study.ask()
      new_X = []
      for feature, dist in distributions.items():
          if type(dist) is optuna.distributions.FloatDistribution:
              new_X.append(trial.suggest_float(feature, dist.low, dist.high))
          elif type(dist) is optuna.distributions.CategoricalDistribution:
              new_X.append(trial.suggest_categorical(feature, dist.choices))
      new_X = np.array(new_X)
      return new_X.reshape(1, new_X.shape[0])
  \<close>
  The list \<^verbatim>\<open>new_X\<close> holds what the library returned: numbers, and the strings or \<^verbatim>\<open>None\<close> of
  such choices.
\<close>

fun suggest_loop :: "optuna \<Rightarrow> nat \<Rightarrow> search_space \<Rightarrow> choice list \<Rightarrow> choice list io" where
  "suggest_loop lib trial [] new_X = return_io new_X"
| "suggest_loop lib trial ((feature, distrib) # rest) new_X =
     (case distrib of
        FloatDistribution low high \<Rightarrow>
          bind_io (external (SuggestFloat trial feature low high)
                     (\<lambda>h. optuna_suggest_float lib h trial feature low high))
            (\<lambda>v. suggest_loop lib trial rest (new_X @ [Number v]))
      | CategoricalDistribution choices \<Rightarrow>
          bind_io (external (SuggestCategorical trial feature choices)
                     (\<lambda>h. optuna_suggest_categorical lib h trial feature choices))
            (\<lambda>v. suggest_loop lib trial rest (new_X @ [v]))
      | OtherDistribution \<Rightarrow> suggest_loop lib trial rest new_X)"

text \<open>
  \<^verbatim>\<open>np.array\<close> of a list of numbers is an array of numbers. When the list holds \<^verbatim>\<open>None\<close>,
  numpy makes an array of objects, which holds the values as they are. Otherwise, when the
  list holds a string, numpy makes an array of strings, and every number of the list is
  replaced by its text: \<^verbatim>\<open>np.array([-5.0, 'a'])\<close> is \<^verbatim>\<open>array(['-5.0', 'a'], dtype='<U32')\<close>. An
  entry of such an array is the string of a choice (\<open>Literal\<close>) or the text numpy writes for
  a number (\<open>Written\<close>).
\<close>

datatype np_str = Literal string | Written pyfloat

fun str_of :: "choice \<Rightarrow> np_str" where
  "str_of (Number x) = Written x"
| "str_of (Str s) = Literal s"
| "str_of NoneChoice = Literal ''None''"

text \<open>The numbers of a list, when all its elements are numbers.\<close>

fun numbers :: "choice list \<Rightarrow> pyfloat list option" where
  "numbers [] = Some []"
| "numbers (Number x # rest) = map_option (Cons x) (numbers rest)"
| "numbers (Str s # rest) = None"
| "numbers (NoneChoice # rest) = None"

text \<open>
  What \<^verbatim>\<open>get_candidate\<close> returns: the reference of a new array of numbers, or an array of
  strings or of objects. The last two are given by their rows: the driver passes them to
  the test function and neither reads nor keeps them.
\<close>

datatype array = FloatArray nat | TextArray "np_str list list" | ObjectArray "choice list list"

text \<open>\<^verbatim>\<open>np.array(new_X)\<close> reshaped to one row.\<close>

definition np_array_row :: "choice list \<Rightarrow> array io" where
  "np_array_row new_X =
     (case numbers new_X of
        Some row \<Rightarrow>
          bind_io (alloc \<lparr>ncols = length new_X, rows = [row]\<rparr>) (\<lambda>r. return_io (FloatArray r))
      | None \<Rightarrow>
          if NoneChoice \<in> set new_X then return_io (ObjectArray [new_X])
          else return_io (TextArray [map str_of new_X]))"

definition get_candidate :: "optuna \<Rightarrow> optimizer \<Rightarrow> nat \<Rightarrow> nat \<Rightarrow> search_space \<Rightarrow> array io" where
  "get_candidate lib self Xs ys distributions =
     bind_io (set_samples lib self Xs ys distributions) (\<lambda>_.
       case study self of
         None \<Rightarrow> raise_io AttributeError
       | Some h \<Rightarrow>
           bind_io (external (Ask h) (\<lambda>hs. raises (optuna_ask lib hs h) (length hs))) (\<lambda>trial.
           bind_io (suggest_loop lib trial distributions []) np_array_row))"

section \<open>main.py: run_optimization\<close>

text \<open>
  Modelled from the spec: the test functions are not among the sources. The spec gives
  their inputs as numeric vectors and their evaluation as a map of numeric batches, so
  \<^verbatim>\<open>func.f\<close> of an array of strings or of objects is taken to raise: computing with such an
  array raises \<^verbatim>\<open>TypeError\<close> in numpy.
\<close>

definition call_f_not_numeric :: "target_function \<Rightarrow> array \<Rightarrow> 'a io" where
  "call_f_not_numeric func x = raise_io TypeError"

text \<open>
  \<^verbatim>\<open>
  def run_optimization(func, direction, X_init, y_init, sampler_name, iters=100):
      sampler = Optimizer(sampler_name)
      Xs = X_init.copy()
      ys = y_init.copy()
      distributions = func.distributions
      for _ in tqdm(range(iters)):
          sampler.create_study(direction)
          new_X = sampler.get_candidate(Xs, ys, distributions)
          new_y = func.f(new_X)
          Xs = np.concatenate([Xs, new_X])
          ys = np.concatenate([ys, new_y])
      return ys
  \<close>
  The loop's variables are the \<^verbatim>\<open>Optimizer\<close> object and the references \<^verbatim>\<open>Xs\<close> and
  \<^verbatim>\<open>ys\<close>; \<open>iteration\<close> is its body. Counts are natural numbers (\<^verbatim>\<open>range\<close> of a negative number
  is empty). The parameter \<^verbatim>\<open>direction\<close> is written \<open>dir\<close>. With a candidate that is
  not numeric the body ends in \<^verbatim>\<open>func.f\<close>, before its concatenations.
\<close>

type_synonym loop_state = "optimizer \<times> nat \<times> nat"

definition iteration :: "optuna \<Rightarrow> target_function \<Rightarrow> string \<Rightarrow> loop_state \<Rightarrow> loop_state io" where
  "iteration lib func dir v =
     (case v of (self, Xs, ys) \<Rightarrow>
        bind_io (create_study lib self dir) (\<lambda>self'.
        bind_io (get_candidate lib self' Xs ys (func_distributions func)) (\<lambda>candidate.
          case candidate of
            TextArray _ \<Rightarrow> call_f_not_numeric func candidate
          | ObjectArray _ \<Rightarrow> call_f_not_numeric func candidate
          | FloatArray new_X \<Rightarrow>
              bind_io (call_f func new_X) (\<lambda>new_y.
              bind_io (np_concatenate Xs new_X) (\<lambda>Xs'.
              bind_io (np_concatenate ys new_y) (\<lambda>ys'.
                return_io (self', Xs', ys')))))))"

fun iterations :: "optuna \<Rightarrow> target_function \<Rightarrow> string \<Rightarrow> nat \<Rightarrow> loop_state \<Rightarrow> loop_state io" where
  "iterations lib func dir 0 v = return_io v"
| "iterations lib func dir (Suc n) v =
     bind_io (iteration lib func dir v) (iterations lib func dir n)"

text \<open>The state of the loop when it is entered.\<close>

definition loop_entry :: "nat \<Rightarrow> nat \<Rightarrow> string \<Rightarrow> loop_state io" where
  "loop_entry X_init y_init sampler_name =
     bind_io (np_copy X_init) (\<lambda>Xs.
     bind_io (np_copy y_init) (\<lambda>ys.
       return_io (Optimizer_init sampler_name, Xs, ys)))"

definition run_optimization ::
  "optuna \<Rightarrow> target_function \<Rightarrow> string \<Rightarrow> nat \<Rightarrow> nat \<Rightarrow> string \<Rightarrow> nat \<Rightarrow> nat io" where
  "run_optimization lib func dir X_init y_init sampler_name iters =
     bind_io (loop_entry X_init y_init sampler_name) (\<lambda>v.
     bind_io (iterations lib func dir iters v) (\<lambda>(self, Xs, ys).
       return_io ys))"

section \<open>main.py: main\<close>

text \<open>
  \<^verbatim>\<open>a.squeeze()\<close> drops every dimension of length one and returns a view of \<open>a\<close>: an
  \<open>n \<times> 1\<close> array gives a vector of length \<open>n\<close>, but a \<open>1 \<times> 1\<close> array gives a number.
\<close>

datatype squeezed = Scalar pyfloat | Vector "pyfloat list" | Matrix ndarray

definition squeeze :: "ndarray \<Rightarrow> squeezed" where
  "squeeze a =
     (if length (rows a) = 1 \<and> ncols a = 1 then Scalar (hd (hd (rows a)))
      else if ncols a = 1 then Vector (map hd (rows a))
      else if length (rows a) = 1 then Vector (hd (rows a))
      else Matrix a)"

text \<open>
  One trial of \<^verbatim>\<open>main\<close> (the body of its loop over \<^verbatim>\<open>j\<close>):
  \<^verbatim>\<open>
  serch_fs = {}
  X_init = f.random_x()
  y_init = f.f(X_init)
  for _ in range(INIT_NUM - 1):
      X = f.random_x()
      y = f.f(X)
      X_init = np.concatenate([X_init, X])
      y_init = np.concatenate([y_init, y])
  ys_random = y_init.copy()
  for _ in range(SERCH_NUM):
      new_y = f.f(f.random_x())
      ys_random = np.concatenate([ys_random, new_y])
  serch_fs['Random'] = ys_random.squeeze()
  for method in use_methods:
      print(f'Start optimization using {method.value}')
      ys = run_optimization(f, direction, X_init, y_init, method, SERCH_NUM)
      serch_fs[method.value] = ys.squeeze()
  df = pl.DataFrame(serch_fs)
  \<close>
\<close>

fun initial_batch_loop :: "target_function \<Rightarrow> nat \<Rightarrow> nat \<times> nat \<Rightarrow> (nat \<times> nat) io" where
  "initial_batch_loop f 0 v = return_io v"
| "initial_batch_loop f (Suc n) v =
     (case v of (X_init, y_init) \<Rightarrow>
        bind_io (call_random_x f) (\<lambda>X.
        bind_io (call_f f X) (\<lambda>y.
        bind_io (np_concatenate X_init X) (\<lambda>X_init'.
        bind_io (np_concatenate y_init y) (\<lambda>y_init'.
          initial_batch_loop f n (X_init', y_init'))))))"

definition initial_batch :: "target_function \<Rightarrow> nat \<Rightarrow> (nat \<times> nat) io" where
  "initial_batch f init_num =
     bind_io (call_random_x f) (\<lambda>X_init.
     bind_io (call_f f X_init) (\<lambda>y_init.
       initial_batch_loop f (init_num - 1) (X_init, y_init)))"

fun random_search_loop :: "target_function \<Rightarrow> nat \<Rightarrow> nat \<Rightarrow> nat io" where
  "random_search_loop f 0 ys_random = return_io ys_random"
| "random_search_loop f (Suc n) ys_random =
     bind_io (call_random_x f) (\<lambda>X.
     bind_io (call_f f X) (\<lambda>new_y.
     bind_io (np_concatenate ys_random new_y) (\<lambda>ys_random'.
       random_search_loop f n ys_random')))"

text \<open>
  \<^verbatim>\<open>serch_fs\<close> is a dict from a column's name to a squeezed view of an array; it holds the
  reference of that array. The loop over \<^verbatim>\<open>use_methods\<close> reads \<^verbatim>\<open>method.value\<close> first (in the
  \<^verbatim>\<open>print\<close>): only a member of \<^verbatim>\<open>SamplerName\<close> has that attribute.
\<close>

fun methods_loop ::
  "optuna \<Rightarrow> target_function \<Rightarrow> string \<Rightarrow> nat \<Rightarrow> nat \<Rightarrow> nat \<Rightarrow> string list \<Rightarrow>
   (string \<times> nat) list \<Rightarrow> (string \<times> nat) list io" where
  "methods_loop lib f dir X_init y_init serch_num [] serch_fs = return_io serch_fs"
| "methods_loop lib f dir X_init y_init serch_num (method # rest) serch_fs =
     (if method \<in> set SamplerName then
        bind_io (run_optimization lib f dir X_init y_init method serch_num) (\<lambda>ys.
          methods_loop lib f dir X_init y_init serch_num rest (AList.update method ys serch_fs))
      else raise_io AttributeError)"

text \<open>
  \<^verbatim>\<open>pl.DataFrame(serch_fs)\<close> reads the columns. A column must be a sequence: the constructor
  raises \<^verbatim>\<open>TypeError\<close> on a squeezed view that is a number (a zero-dimensional array).
\<close>

fun is_Scalar :: "squeezed \<Rightarrow> bool" where
  "is_Scalar (Scalar x) = True"
| "is_Scalar (Vector xs) = False"
| "is_Scalar (Matrix a) = False"

definition DataFrame :: "(string \<times> nat) list \<Rightarrow> (string \<times> squeezed) list io" where
  "DataFrame serch_fs st =
     (let columns = map (\<lambda>(name, r). (name, squeeze (heap st ! r))) serch_fs in
      if list_ex (\<lambda>(name, column). is_Scalar column) columns then (Inl TypeError, st)
      else (Inr columns, st))"

text \<open>
  The trial, for a direction \<open>dir\<close>, \<open>init_num\<close> initial points, \<open>serch_num\<close> iterations and
  the strategies \<open>methods\<close>.
\<close>

definition trial ::
  "optuna \<Rightarrow> target_function \<Rightarrow> string \<Rightarrow> nat \<Rightarrow> nat \<Rightarrow> string list \<Rightarrow>
   (string \<times> squeezed) list io" where
  "trial lib f dir init_num serch_num methods =
     bind_io (initial_batch f init_num) (\<lambda>(X_init, y_init).
     bind_io (np_copy y_init) (\<lambda>ys_random.
     bind_io (random_search_loop f serch_num ys_random) (\<lambda>ys_random'.
     bind_io (methods_loop lib f dir X_init y_init serch_num methods
                [(''Random'', ys_random')]) DataFrame)))"

text \<open>The configuration written in \<^verbatim>\<open>main\<close>.\<close>

definition direction :: string where "direction = ''minimize''"
definition EXP_NUM :: nat where "EXP_NUM = 3"
definition SERCH_NUM :: nat where "SERCH_NUM = 100"
definition INIT_NUM :: nat where "INIT_NUM = 10"

definition use_methods :: "string list" where
  "use_methods = [EIGammaPrior, EIDimScaledPrior, LogEIGammaPrior, LogEIDimScaledPrior]"

fun trials :: "optuna \<Rightarrow> target_function \<Rightarrow> nat \<Rightarrow> (string \<times> squeezed) list list io" where
  "trials lib f 0 = return_io []"
| "trials lib f (Suc n) =
     bind_io (trial lib f direction INIT_NUM SERCH_NUM use_methods) (\<lambda>df.
     bind_io (trials lib f n) (\<lambda>dfs. return_io (df # dfs)))"

definition main :: "optuna \<Rightarrow> target_function \<Rightarrow> (string \<times> squeezed) list list io" where
  "main lib f = trials lib f EXP_NUM"

section \<open>What the claims about main.py mean\<close>

text \<open>
  The calls that \<^verbatim>\<open>get_candidate\<close> makes for one feature, and what the library answers to
  them. A descriptor of another class gets no call.
\<close>

fun suggest_call :: "nat \<Rightarrow> string \<times> distribution \<Rightarrow> event list" where
  "suggest_call t (feature, FloatDistribution low high) = [SuggestFloat t feature low high]"
| "suggest_call t (feature, CategoricalDistribution choices) = [SuggestCategorical t feature choices]"
| "suggest_call t (feature, OtherDistribution) = []"

fun suggest_answer :: "optuna \<Rightarrow> event list \<Rightarrow> nat \<Rightarrow> string \<times> distribution \<Rightarrow> error + choice" where
  "suggest_answer lib h t (feature, FloatDistribution low high) =
     (case optuna_suggest_float lib h t feature low high of
        Inl e \<Rightarrow> Inl e
      | Inr v \<Rightarrow> Inr (Number v))"
| "suggest_answer lib h t (feature, CategoricalDistribution choices) =
     optuna_suggest_categorical lib h t feature choices"
| "suggest_answer lib h t (feature, OtherDistribution) = Inl ValueError"

definition suggest_calls :: "nat \<Rightarrow> search_space \<Rightarrow> event list" where
  "suggest_calls t distributions = concat (map (suggest_call t) distributions)"

text \<open>
  A search space whose descriptors are all continuous or categorical.
\<close>

definition continuous_or_categorical :: "search_space \<Rightarrow> bool" where
  "continuous_or_categorical distributions =
     list_all (\<lambda>(feature, d). d \<noteq> OtherDistribution) distributions"

text \<open>
  The features that get a value, in key order, and a search space whose categorical choices
  are all numbers.
\<close>

definition suggested :: "search_space \<Rightarrow> search_space" where
  "suggested distributions = filter (\<lambda>(feature, d). d \<noteq> OtherDistribution) distributions"

definition numeric_choices :: "search_space \<Rightarrow> bool" where
  "numeric_choices distributions =
     list_all (\<lambda>(feature, d).
        case d of CategoricalDistribution choices \<Rightarrow> numbers choices \<noteq> None | _ \<Rightarrow> True)
       distributions"

text \<open>
  A value lies within a descriptor: a number in \<^verbatim>\<open>[low, high]\<close> for a continuous one, one
  of the choices for a categorical one. For an entry of an array of strings: a string is no
  number of \<^verbatim>\<open>[low, high]\<close>, and the text of a number is not the number that was chosen.
\<close>

fun in_distribution :: "choice \<Rightarrow> distribution \<Rightarrow> bool" where
  "in_distribution (Number v) (FloatDistribution low high) = (fle low v \<and> fle v high)"
| "in_distribution (Str s) (FloatDistribution low high) = False"
| "in_distribution NoneChoice (FloatDistribution low high) = False"
| "in_distribution v (CategoricalDistribution choices) = (v \<in> set choices)"
| "in_distribution v OtherDistribution = False"

fun str_in_distribution :: "np_str \<Rightarrow> distribution \<Rightarrow> bool" where
  "str_in_distribution (Literal s) (CategoricalDistribution choices) = (Str s \<in> set choices)"
| "str_in_distribution (Literal s) (FloatDistribution low high) = False"
| "str_in_distribution (Literal s) OtherDistribution = False"
| "str_in_distribution (Written x) d = False"

text \<open>
  The candidate is one row whose entries lie, in key order, within the descriptors of the
  features that get a value. An array of objects holds the values as they were returned.
\<close>

fun within_distributions :: "state \<Rightarrow> array \<Rightarrow> search_space \<Rightarrow> bool" where
  "within_distributions st (FloatArray r) distributions =
     (case rows (heap st ! r) of
        [row] \<Rightarrow> list_all2 (\<lambda>v p. in_distribution (Number v) (snd p)) row (suggested distributions)
      | _ \<Rightarrow> False)"
| "within_distributions st (TextArray rs) distributions =
     (case rs of
        [row] \<Rightarrow> list_all2 (\<lambda>s p. str_in_distribution s (snd p)) row (suggested distributions)
      | _ \<Rightarrow> False)"
| "within_distributions st (ObjectArray rs) distributions =
     (case rs of
        [row] \<Rightarrow> list_all2 (\<lambda>v p. in_distribution v (snd p)) row (suggested distributions)
      | _ \<Rightarrow> False)"

text \<open>
  The library's own promise (its \<^verbatim>\<open>suggest_float\<close> and \<^verbatim>\<open>suggest_categorical\<close> return a
  value of the distribution they are given, or raise): the driver relies on it.
\<close>

definition suggests_within :: "optuna \<Rightarrow> bool" where
  "suggests_within lib =
     ((\<forall>h t feature low high v.
         optuna_suggest_float lib h t feature low high = Inr v \<longrightarrow> fle low v \<and> fle v high) \<and>
      (\<forall>h t feature choices v.
         optuna_suggest_categorical lib h t feature choices = Inr v \<longrightarrow> v \<in> set choices))"

text \<open>
  The trials that replaying the observations \<^verbatim>\<open>Xs\<close>, \<^verbatim>\<open>ys\<close> registers, in the order of the
  two arrays: one for each pair of rows, with the features named in key order and the value
  \<^verbatim>\<open>y[0]\<close>.
\<close>

definition replayed :: "search_space \<Rightarrow> ndarray \<Rightarrow> ndarray \<Rightarrow> frozen_trial list" where
  "replayed distributions Xs ys =
     map (\<lambda>(X, y). FrozenTrial (zip (map fst distributions) X) distributions (hd y))
       (zip (rows Xs) (rows ys))"

text \<open>
  The calls of one iteration of the loop, when the history has \<open>h\<close> calls so far: a study
  is created (it is study \<open>h\<close>), the observations are added to it in order, one trial is
  asked from it, and that trial is asked for one value for each feature.
\<close>

definition iteration_calls ::
  "nat \<Rightarrow> string \<Rightarrow> sampler \<Rightarrow> search_space \<Rightarrow> ndarray \<Rightarrow> ndarray \<Rightarrow> event list" where
  "iteration_calls h dir s distributions Xs ys =
     CreateStudy dir s # map (AddTrial h) (replayed distributions Xs ys)
       @ Ask h # suggest_calls (h + length (replayed distributions Xs ys) + 1) distributions"

text \<open>
  Modelled from the spec: the test functions (\<^verbatim>\<open>test_functions.single_objective\<close>) are not
  among the sources. Their interface, as the spec gives it: the evaluation maps an \<open>n \<times> dim\<close>
  batch of inputs to an \<open>n \<times> 1\<close> batch of outputs, and the random-sampling operation produces
  one input row.
\<close>

definition target_function_interface :: "target_function \<Rightarrow> bool" where
  "target_function_interface func =
     ((\<forall>X y. func_f func X = Inr y \<longrightarrow> length (rows y) = length (rows X) \<and> ncols y = 1) \<and>
      (\<forall>h X. func_random_x func h = Inr X \<longrightarrow> length (rows X) = 1))"

text \<open>
  \<open>ys\<close> holds, row by row, the objective values of the rows of \<open>Xs\<close>.
\<close>

definition objective_of :: "target_function \<Rightarrow> ndarray \<Rightarrow> ndarray \<Rightarrow> bool" where
  "objective_of f Xs ys =
     list_all2 (\<lambda>X_row y_row. \<exists>X y. rows X = [X_row] \<and> func_f f X = Inr y \<and> rows y = [y_row])
       (rows Xs) (rows ys)"

text \<open>
  An array that starts with the rows of \<open>y_init\<close> and has \<open>n\<close> more, with the same second
  dimension.
\<close>

definition extends_batch :: "ndarray \<Rightarrow> nat \<Rightarrow> ndarray \<Rightarrow> bool" where
  "extends_batch y_init n a =
     (ncols a = ncols y_init \<and> (\<exists>new_ys. length new_ys = n \<and> rows a = rows y_init @ new_ys))"

text \<open>
  A state \<open>st'\<close> extends \<open>st\<close> when its history and its store are those of \<open>st\<close> with
  more at the end: no array of \<open>st\<close> has been written. An action grows the state when every
  run of it, completed or not, ends in an extension.
\<close>

definition extends :: "state \<Rightarrow> state \<Rightarrow> bool" where
  "extends st st' = ((\<exists>evs. hist st' = hist st @ evs) \<and> (\<exists>new. heap st' = heap st @ new))"

definition grows :: "'a io \<Rightarrow> bool" where
  "grows m = (\<forall>st r st'. m st = (r, st') \<longrightarrow> extends st st')"

text \<open>
  Collaborators with which the driver completes: the number of entries of a candidate; a
  library that raises on no call the driver makes for the search space and suggests
  numbers; a test function
  that returns an \<open>n \<times> 1\<close> batch of non-empty rows and draws rows as wide as a
  candidate; and observations that the loop can extend.
\<close>

definition candidate_dim :: "search_space \<Rightarrow> nat" where
  "candidate_dim distributions =
     length (filter (\<lambda>d. d \<noteq> OtherDistribution) (map snd distributions))"

definition never_raises :: "optuna \<Rightarrow> search_space \<Rightarrow> bool" where
  "never_raises lib distributions =
     ((\<forall>h d s. optuna_create_study lib h d s = None) \<and>
      (\<forall>params ds v. optuna_create_trial lib params ds v = None) \<and>
      (\<forall>h s t. optuna_add_trial lib h s t = None) \<and>
      (\<forall>h s. optuna_ask lib h s = None) \<and>
      (\<forall>h t. \<forall>p \<in> set distributions.
         snd p \<noteq> OtherDistribution \<longrightarrow> (\<exists>v. suggest_answer lib h t p = Inr (Number v))))"

definition well_behaved :: "target_function \<Rightarrow> bool" where
  "well_behaved func =
     ((\<forall>X. \<exists>y. func_f func X = Inr y \<and> ncols y = 1 \<and> length (rows y) = length (rows X)
            \<and> (\<forall>r \<in> set (rows y). r \<noteq> [])) \<and>
      (\<forall>h. \<exists>X. func_random_x func h = Inr X \<and> ncols X = candidate_dim (func_distributions func)
            \<and> length (rows X) = 1))"

definition observations_ok :: "nat \<Rightarrow> state \<Rightarrow> nat \<Rightarrow> nat \<Rightarrow> bool" where
  "observations_ok d st Xs ys =
     (Xs < length (heap st) \<and> ys < length (heap st) \<and>
      ncols (heap st ! Xs) = d \<and> ncols (heap st ! ys) = 1 \<and>
      (\<forall>y \<in> set (rows (heap st ! ys)). y \<noteq> []))"

section \<open>A small library and test function\<close>

text \<open>
  A library whose sampler always suggests the lower bound or the first choice, and a test
  function of two features whose objective is the first coordinate; they are used to run
  the driver on concrete inputs.
\<close>

definition demo_optuna :: optuna where
  "demo_optuna = \<lparr>
     optuna_create_study = (\<lambda>h d s. None),
     optuna_create_trial = (\<lambda>params ds v. None),
     optuna_add_trial = (\<lambda>h s t. None),
     optuna_ask = (\<lambda>h s. None),
     optuna_suggest_float = (\<lambda>h t name lo hi. if fle lo hi then Inr lo else Inl ValueError),
     optuna_suggest_categorical = (\<lambda>h t name cs. case cs of [] \<Rightarrow> Inl ValueError | c # _ \<Rightarrow> Inr c)\<rparr>"

definition demo_function :: target_function where
  "demo_function = \<lparr>
     func_f = (\<lambda>x. Inr \<lparr>ncols = 1, rows = map (\<lambda>r. [hd r]) (rows x)\<rparr>),
     func_random_x = (\<lambda>h. Inr \<lparr>ncols = 2, rows = [[Fin (real (length h)), Fin 0]]\<rparr>),
     func_distributions =
       [(''x0'', FloatDistribution (Fin (- 5)) (Fin 5)),
        (''x1'', CategoricalDistribution [Number (Fin 0), Number (Fin 1)])]\<rparr>"

definition start :: state where
  "start = \<lparr>hist = [], heap = []\<rparr>"

definition demo_X :: ndarray where
  "demo_X = \<lparr>ncols = 2, rows = [[Fin 1, Fin 0], [Fin 2, Fin 1]]\<rparr>"

definition demo_y :: ndarray where
  "demo_y = \<lparr>ncols = 1, rows = [[Fin 1], [Fin 2]]\<rparr>"

definition demo_state :: state where
  "demo_state = \<lparr>hist = [], heap = [demo_X, demo_y]\<rparr>"

definition demo_study_state :: state where
  "demo_study_state = \<lparr>hist = [CreateStudy ''minimize'' TPESampler], heap = [demo_X, demo_y]\<rparr>"

definition demo_batch_state :: state where
  "demo_batch_state = \<lparr>hist = [], heap = [demo_X, demo_y, demo_y]\<rparr>"

text \<open>
  A search space with a categorical feature whose choices are strings, a state whose
  observations have no row yet, and a library whose \<^verbatim>\<open>suggest_float\<close> returns \<open>99\<close> whatever
  the bounds.
\<close>

definition demo_strings :: search_space where
  "demo_strings =
     [(''x0'', FloatDistribution (Fin (- 5)) (Fin 5)),
      (''x1'', CategoricalDistribution [Str ''a'', Str ''b''])]"

definition demo_empty_state :: state where
  "demo_empty_state =
     \<lparr>hist = [CreateStudy ''minimize'' TPESampler],
      heap = [\<lparr>ncols = 2, rows = []\<rparr>, \<lparr>ncols = 1, rows = []\<rparr>]\<rparr>"

definition unchecked_optuna :: optuna where
  "unchecked_optuna = demo_optuna\<lparr>optuna_suggest_float := (\<lambda>h t name lo hi. Inr (Fin 99))\<rparr>"

section \<open>Comparing floats\<close>

lemma fle_refl: "x \<noteq> NaN \<Longrightarrow> fle x x"
  by (cases x) simp_all

lemma flt_imp_fle: "flt x y \<Longrightarrow> fle x y"
  by (cases x; cases y) simp_all

lemma not_flt_imp_fle: "\<not> flt x y \<Longrightarrow> x \<noteq> NaN \<Longrightarrow> y \<noteq> NaN \<Longrightarrow> fle y x"
  by (cases x; cases y) simp_all

lemma fle_trans: "fle x y \<Longrightarrow> fle y z \<Longrightarrow> fle x z"
  by (cases x; cases y; cases z) simp_all

lemma fle_antisym: "fle x y \<Longrightarrow> fle y x \<Longrightarrow> x = y"
  by (cases x; cases y) simp_all

lemma fle_not_NaN: "fle x y \<Longrightarrow> x \<noteq> NaN \<and> y \<noteq> NaN"
  by (cases x; cases y) simp_all

section \<open>plot.py: the running best\<close>

lemma get_best_ys_loop_acc:
  "get_best_ys_loop b acc ys = acc @ get_best_ys_loop b [] ys"
proof (induction ys arbitrary: b acc)
  case Nil
  show ?case by simp
next
  case (Cons y ys)
  let ?b = "if flt y b then y else b"
  have "get_best_ys_loop b acc (y # ys) = get_best_ys_loop ?b (acc @ [?b]) ys"
    by (simp add: Let_def get_best_ys_loop.simps(2))
  also have "\<dots> = (acc @ [?b]) @ get_best_ys_loop ?b [] ys"
    by (rule Cons.IH)
  also have "\<dots> = acc @ get_best_ys_loop ?b ([] @ [?b]) ys"
    using Cons.IH [of ?b "[] @ [?b]"] by simp
  also have "\<dots> = acc @ get_best_ys_loop b [] (y # ys)"
    by (simp add: Let_def get_best_ys_loop.simps(2))
  finally show ?case .
qed

lemma get_best_ys_loop_Cons:
  "get_best_ys_loop b [] (y # ys) =
     (if flt y b then y else b) # get_best_ys_loop (if flt y b then y else b) [] ys"
  using get_best_ys_loop_acc [of "if flt y b then y else b" "[if flt y b then y else b]" ys]
  by (simp add: Let_def get_best_ys_loop.simps(2))

lemma length_get_best_ys_loop: "length (get_best_ys_loop b [] ys) = length ys"
  by (induction ys arbitrary: b) (simp_all add: get_best_ys_loop_Cons)

text \<open>Each element of the output is the smaller of the start value and of the prefix read so far.\<close>

lemma get_best_ys_loop_nth:
  assumes "NaN \<notin> set ys" "b \<noteq> NaN" "i < length ys"
  shows "(get_best_ys_loop b [] ys ! i = b \<or> get_best_ys_loop b [] ys ! i \<in> set (take (Suc i) ys))
       \<and> fle (get_best_ys_loop b [] ys ! i) b
       \<and> (\<forall>y \<in> set (take (Suc i) ys). fle (get_best_ys_loop b [] ys ! i) y)"
  using assms
proof (induction ys arbitrary: b i)
  case Nil
  then show ?case by simp
next
  case (Cons y ys)
  define b' where "b' = (if flt y b then y else b)"
  have y: "y \<noteq> NaN" and ys: "NaN \<notin> set ys" using Cons.prems(1) by auto
  have b': "b' \<noteq> NaN" using y Cons.prems(2) by (simp add: b'_def)
  have bb: "fle b' b" using flt_imp_fle [of y b] fle_refl [of b] Cons.prems(2) by (simp add: b'_def)
  have by': "fle b' y" using not_flt_imp_fle [of y b] fle_refl [of y] y Cons.prems(2) by (simp add: b'_def)
  have b'_cases: "b' = b \<or> b' = y" by (simp add: b'_def)
  have unfold: "get_best_ys_loop b [] (y # ys) = b' # get_best_ys_loop b' [] ys"
    by (simp add: get_best_ys_loop_Cons b'_def)
  show ?case
  proof (cases i)
    case 0
    then show ?thesis using bb by' b'_cases by (simp add: unfold)
  next
    case (Suc k)
    then have k: "k < length ys" using Cons.prems(3) by simp
    note IH = Cons.IH [OF ys b' k]
    define r where "r = get_best_ys_loop b' [] ys ! k"
    have r: "get_best_ys_loop b [] (y # ys) ! i = r"
      using Suc by (simp add: unfold r_def)
    have tk: "set (take (Suc i) (y # ys)) = insert y (set (take (Suc k) ys))"
      using Suc by simp
    have IH1: "r = b' \<or> r \<in> set (take (Suc k) ys)"
      and IH2: "fle r b'" and IH3: "\<forall>z \<in> set (take (Suc k) ys). fle r z"
      using IH by (simp_all add: r_def)
    have 1: "r = b \<or> r \<in> set (take (Suc i) (y # ys))"
      using IH1 b'_cases unfolding tk by blast
    have 2: "fle r b" using IH2 bb by (rule fle_trans)
    have "fle r y" using IH2 by' by (rule fle_trans)
    then have 3: "\<forall>z \<in> set (take (Suc i) (y # ys)). fle r z"
      using IH3 unfolding tk by blast
    show ?thesis unfolding r using 1 2 3 by blast
  qed
qed

text \<open>
  Claim C6, as amended: for every input sequence without a NaN, \<^verbatim>\<open>get_best_ys\<close> returns a
  sequence of the same length whose element at index \<open>i\<close> is the minimum of \<^verbatim>\<open>ys[0..i]\<close>.
\<close>

theorem get_best_ys_running_minimum:
  assumes "NaN \<notin> set ys"
  shows "running_minimum ys (get_best_ys ys)"
proof -
  have "is_minimum_of (get_best_ys ys ! i) (take (Suc i) ys)" if i: "i < length ys" for i
  proof -
    let ?r = "get_best_ys ys ! i"
    have n: "?r = PosInf \<or> ?r \<in> set (take (Suc i) ys)"
      and le: "\<forall>y \<in> set (take (Suc i) ys). fle ?r y"
      using get_best_ys_loop_nth [OF assms _ i, of PosInf] by (simp_all add: get_best_ys_def)
    have yi: "ys ! i \<in> set (take (Suc i) ys)"
      using i by (simp add: take_Suc_conv_app_nth)
    have "?r \<in> set (take (Suc i) ys)"
    proof (cases "?r = PosInf")
      case True
      then have "fle PosInf (ys ! i)" using le yi by auto
      moreover have "ys ! i \<noteq> NaN" using assms i by (metis nth_mem)
      ultimately have "ys ! i = PosInf" by (cases "ys ! i") simp_all
      then show ?thesis using True yi by simp
    next
      case False
      then show ?thesis using n by simp
    qed
    then show ?thesis using le by (simp add: is_minimum_of_def)
  qed
  then show ?thesis
    by (simp add: running_minimum_def get_best_ys_def length_get_best_ys_loop)
qed

theorem get_best_ys_running_minimum_witness:
  "NaN \<notin> set [Fin 3, Fin 1, Fin 2] \<and> running_minimum [Fin 3, Fin 1, Fin 2] (get_best_ys [Fin 3, Fin 1, Fin 2])
   \<and> get_best_ys [Fin 3, Fin 1, Fin 2] = [Fin 3, Fin 1, Fin 1]"
  using get_best_ys_running_minimum [of "[Fin 3, Fin 1, Fin 2]"]
  by (simp add: get_best_ys_def get_best_ys_loop_Cons)

text \<open>
  Claim C6 as stated, for every input sequence, fails on \<^verbatim>\<open>[nan]\<close>: \<^verbatim>\<open>nan < inf\<close> is
  false, so the output is \<^verbatim>\<open>[inf]\<close>, which is not an element of the input.
\<close>

theorem get_best_ys_NaN_counterexample:
  "get_best_ys [NaN] = [PosInf] \<and> \<not> running_minimum [NaN] (get_best_ys [NaN])"
  by (simp add: get_best_ys_def get_best_ys_loop_Cons running_minimum_def is_minimum_of_def)


lemma get_best_ys_loop_below:
  "b \<noteq> NaN \<Longrightarrow> x \<in> set (get_best_ys_loop b [] ys) \<Longrightarrow> fle x b"
proof (induction ys arbitrary: b)
  case Nil
  then show ?case by simp
next
  case (Cons y ys)
  define b' where "b' = (if flt y b then y else b)"
  have bb: "fle b' b"
    using flt_imp_fle [of y b] fle_refl [of b] Cons.prems(1) by (simp add: b'_def)
  then have b': "b' \<noteq> NaN" using fle_not_NaN by blast
  have "x = b' \<or> x \<in> set (get_best_ys_loop b' [] ys)"
    using Cons.prems(2) by (simp add: get_best_ys_loop_Cons b'_def)
  then show ?case
  proof
    assume "x = b'"
    then show ?thesis using bb by simp
  next
    assume "x \<in> set (get_best_ys_loop b' [] ys)"
    then have "fle x b'" using Cons.IH [OF b'] by simp
    then show ?thesis using bb by (rule fle_trans)
  qed
qed

lemma get_best_ys_loop_sorted:
  "b \<noteq> NaN \<Longrightarrow> sorted_wrt (\<lambda>earlier later. fle later earlier) (get_best_ys_loop b [] ys)"
proof (induction ys arbitrary: b)
  case Nil
  then show ?case by simp
next
  case (Cons y ys)
  define b' where "b' = (if flt y b then y else b)"
  have "fle b' b"
    using flt_imp_fle [of y b] fle_refl [of b] Cons.prems by (simp add: b'_def)
  then have b': "b' \<noteq> NaN" using fle_not_NaN by blast
  have "\<forall>x \<in> set (get_best_ys_loop b' [] ys). fle x b'"
    using get_best_ys_loop_below [OF b'] by blast
  then show ?case
    using Cons.IH [OF b'] by (simp add: get_best_ys_loop_Cons b'_def [symmetric])
qed

lemma get_best_ys_loop_fixed:
  "sorted_wrt (\<lambda>earlier later. fle later earlier) xs \<Longrightarrow> \<forall>x \<in> set xs. fle x b \<Longrightarrow>
   get_best_ys_loop b [] xs = xs"
proof (induction xs arbitrary: b)
  case Nil
  then show ?case by simp
next
  case (Cons x xs)
  have xb: "fle x b" using Cons.prems(2) by simp
  have "(if flt x b then x else b) = x"
  proof (cases "flt x b")
    case True
    then show ?thesis by simp
  next
    case False
    have "fle b x" using not_flt_imp_fle [OF False] fle_not_NaN [OF xb] by simp
    then have "x = b" using xb by (rule fle_antisym [rotated])
    then show ?thesis by simp
  qed
  moreover have "get_best_ys_loop x [] xs = xs"
    using Cons.prems(1) by (intro Cons.IH) simp_all
  ultimately show ?case by (simp add: get_best_ys_loop_Cons)
qed

text \<open>
  Claim C7, as amended: for every input sequence (NaN or not), the output of \<^verbatim>\<open>get_best_ys\<close>
  is monotonically non-increasing, and \<^verbatim>\<open>get_best_ys\<close> is idempotent. The function has no
  maximizing mode.
\<close>

theorem get_best_ys_non_increasing_idempotent:
  "non_increasing (get_best_ys ys) \<and> get_best_ys (get_best_ys ys) = get_best_ys ys"
proof
  have s: "sorted_wrt (\<lambda>earlier later. fle later earlier) (get_best_ys ys)"
    unfolding get_best_ys_def by (rule get_best_ys_loop_sorted) simp
  have below: "\<forall>x \<in> set (get_best_ys ys). fle x PosInf"
    unfolding get_best_ys_def using get_best_ys_loop_below [of PosInf] by blast
  show "non_increasing (get_best_ys ys)"
    unfolding non_increasing_def
  proof (intro allI impI)
    fix j i
    assume j: "j < length (get_best_ys ys)" and i: "i \<le> j"
    show "fle (get_best_ys ys ! j) (get_best_ys ys ! i)"
    proof (cases "i = j")
      case True
      have "get_best_ys ys ! j \<noteq> NaN"
        using below j fle_not_NaN nth_mem by blast
      then show ?thesis using True by (simp add: fle_refl)
    next
      case False
      then have "i < j" using i by simp
      then show ?thesis using s j by (simp add: sorted_wrt_iff_nth_less)
    qed
  qed
  show "get_best_ys (get_best_ys ys) = get_best_ys ys"
    using get_best_ys_loop_fixed [OF s below] by (simp add: get_best_ys_def)
qed

theorem get_best_ys_non_increasing_idempotent_witness:
  "non_increasing (get_best_ys [Fin 3, NaN, Fin 1, Fin 2])
   \<and> get_best_ys (get_best_ys [Fin 3, NaN, Fin 1, Fin 2]) = get_best_ys [Fin 3, NaN, Fin 1, Fin 2]
   \<and> get_best_ys [Fin 3, NaN, Fin 1, Fin 2] = [Fin 3, Fin 3, Fin 1, Fin 1]"
  using get_best_ys_non_increasing_idempotent [of "[Fin 3, NaN, Fin 1, Fin 2]"]
  by (simp add: get_best_ys_def get_best_ys_loop_Cons)

text \<open>
  Claim C7 as stated promises a non-decreasing output when maximizing: \<^verbatim>\<open>get_best_ys\<close> takes
  no direction, and its output on \<^verbatim>\<open>[2, 1]\<close> is not non-decreasing.
\<close>

theorem get_best_ys_non_decreasing_counterexample:
  "get_best_ys [Fin 2, Fin 1] = [Fin 2, Fin 1] \<and> \<not> non_decreasing (get_best_ys [Fin 2, Fin 1])"
proof -
  have g: "get_best_ys [Fin 2, Fin 1] = [Fin 2, Fin 1]"
    by (simp add: get_best_ys_def get_best_ys_loop_Cons)
  have "\<not> fle ([Fin 2, Fin 1] ! 0) ([Fin 2, Fin 1] ! 1)" by simp
  then have "\<not> non_decreasing [Fin 2, Fin 1]"
    unfolding non_decreasing_def by (metis le0 length_Cons lessI list.size(3) One_nat_def)
  then show ?thesis using g by simp
qed

section \<open>Effects\<close>

lemma bind_io_Inr:
  "bind_io m k st = (Inr b, st'') \<longleftrightarrow> (\<exists>a st'. m st = (Inr a, st') \<and> k a st' = (Inr b, st''))"
  by (auto simp: bind_io_def split: prod.splits sum.splits)

lemma bind_io_InrE:
  assumes "bind_io m k st = (Inr b, st'')"
  obtains a st' where "m st = (Inr a, st')" "k a st' = (Inr b, st'')"
  using assms by (auto simp: bind_io_Inr)

lemma bind_io_cases:
  assumes "bind_io m k st = (r, st'')"
  obtains (raised) e where "m st = (Inl e, st'')" "r = Inl e"
        | (returned) a st' where "m st = (Inr a, st')" "k a st' = (r, st'')"
  using assms by (auto simp: bind_io_def split: prod.splits sum.splits)

lemma bind_io_return [simp]: "bind_io (return_io a) k = k a"
  by (rule ext) (simp add: bind_io_def return_io_def)

lemma bind_io_return_right [simp]: "bind_io m return_io = m"
  by (rule ext) (simp add: bind_io_def return_io_def split: prod.splits sum.splits)

lemma bind_io_assoc: "bind_io (bind_io m f) g = bind_io m (\<lambda>a. bind_io (f a) g)"
  by (rule ext) (simp add: bind_io_def split: prod.splits sum.splits)

lemma return_io_eq [simp]: "return_io a st = (r, st') \<longleftrightarrow> r = Inr a \<and> st' = st"
  by (auto simp: return_io_def)

lemma raise_io_eq [simp]: "raise_io e st = (r, st') \<longleftrightarrow> r = Inl e \<and> st' = st"
  by (auto simp: raise_io_def)

lemma lift_io_eq [simp]: "lift_io x st = (r, st') \<longleftrightarrow> x = r \<and> st' = st"
  by (auto simp: lift_io_def)

lemma external_eq [simp]:
  "external ev answer st = (r, st') \<longleftrightarrow> answer (hist st) = r \<and> st' = st\<lparr>hist := hist st @ [ev]\<rparr>"
  by (auto simp: external_def)

lemma raises_Inr [simp]: "raises x a = Inr b \<longleftrightarrow> x = None \<and> b = a"
  by (auto simp: raises_def split: option.splits)

lemma alloc_eq [simp]:
  "alloc a st = (r, st') \<longleftrightarrow> r = Inr (length (heap st)) \<and> st' = st\<lparr>heap := heap st @ [a]\<rparr>"
  by (auto simp: alloc_def)

lemma deref_eq [simp]: "deref p st = (r, st') \<longleftrightarrow> r = Inr (heap st ! p) \<and> st' = st"
  by (auto simp: deref_def)

section \<open>The store only grows\<close>

text \<open>
  No operation of the driver writes into an array that exists: every one of them, whether it
  completes or raises, leaves the arrays of the store as they were and adds new ones.
\<close>

lemma extends_refl [simp]: "extends st st"
  by (simp add: extends_def)

lemma extends_trans: "extends st st' \<Longrightarrow> extends st' st'' \<Longrightarrow> extends st st''"
  by (auto simp: extends_def)

lemma extends_nth: "extends st st' \<Longrightarrow> p < length (heap st) \<Longrightarrow> heap st' ! p = heap st ! p"
  by (auto simp: extends_def nth_append)

lemma extends_length: "extends st st' \<Longrightarrow> length (heap st) \<le> length (heap st')"
  by (auto simp: extends_def)

lemma extends_take: "extends st st' \<Longrightarrow> take (length (heap st)) (heap st') = heap st"
  by (auto simp: extends_def)

lemma growsD: "grows m \<Longrightarrow> m st = (r, st') \<Longrightarrow> extends st st'"
  by (auto simp: grows_def)

lemma grows_return [intro!, simp]: "grows (return_io a)"
  by (simp add: grows_def)

lemma grows_raise [intro!, simp]: "grows (raise_io e)"
  by (simp add: grows_def)

lemma grows_lift [intro!, simp]: "grows (lift_io x)"
  by (simp add: grows_def)

lemma grows_external [intro!, simp]: "grows (external ev answer)"
  by (simp add: grows_def extends_def)

lemma grows_alloc [intro!, simp]: "grows (alloc a)"
  by (simp add: grows_def extends_def)

lemma grows_deref [intro!, simp]: "grows (deref p)"
  by (simp add: grows_def)

lemma grows_bind [intro!]:
  assumes "grows m" "\<And>a. grows (k a)"
  shows "grows (bind_io m k)"
  unfolding grows_def
proof (intro allI impI)
  fix st r st''
  assume "bind_io m k st = (r, st'')"
  then show "extends st st''"
  proof (cases rule: bind_io_cases)
    case (raised e)
    then show ?thesis using assms(1) by (auto dest: growsD)
  next
    case (returned a st')
    have "extends st st'" using assms(1) returned(1) by (rule growsD)
    moreover have "extends st' st''" using assms(2) returned(2) by (rule growsD)
    ultimately show ?thesis by (rule extends_trans)
  qed
qed

lemma grows_np_copy [intro!, simp]: "grows (np_copy p)"
  by (auto simp: np_copy_def)

lemma grows_np_concatenate [intro!, simp]: "grows (np_concatenate p q)"
  by (auto simp: np_concatenate_def)

lemma grows_call_f [intro!, simp]: "grows (call_f func p)"
  by (auto simp: call_f_def)

lemma grows_call_random_x [intro!, simp]: "grows (call_random_x func)"
  by (auto simp: call_random_x_def)

lemma grows_create_study [intro!, simp]: "grows (create_study lib self dir)"
  by (auto simp: create_study_def split: option.splits)

lemma grows_set_samples_loop [intro!, simp]: "grows (set_samples_loop lib self ds ps)"
  by (induction ps) (auto simp: Let_def split: list.splits option.splits)

lemma grows_set_samples [intro!, simp]: "grows (set_samples lib self Xs ys ds)"
  by (auto simp: set_samples_def)

lemma grows_suggest_loop [intro!, simp]: "grows (suggest_loop lib t ds acc)"
  by (induction ds arbitrary: acc) (auto split: distribution.splits)

lemma grows_np_array_row [intro!, simp]: "grows (np_array_row new_X)"
  by (auto simp: np_array_row_def split: option.splits)

lemma grows_get_candidate [intro!, simp]: "grows (get_candidate lib self Xs ys ds)"
  by (auto simp: get_candidate_def split: option.splits)

lemma grows_iteration [intro!, simp]: "grows (iteration lib func dir v)"
  by (auto simp: iteration_def call_f_not_numeric_def split: prod.splits array.splits)

lemma grows_iterations [intro!, simp]: "grows (iterations lib func dir n v)"
  by (induction n arbitrary: v) auto

lemma grows_loop_entry [intro!, simp]: "grows (loop_entry X_init y_init name)"
  by (auto simp: loop_entry_def)

lemma grows_run_optimization [intro!, simp]:
  "grows (run_optimization lib func dir X_init y_init name iters)"
  by (auto simp: run_optimization_def split: prod.splits)

lemma grows_initial_batch_loop [intro!, simp]: "grows (initial_batch_loop func n v)"
  by (induction n arbitrary: v) (auto split: prod.splits)

lemma grows_initial_batch [intro!, simp]: "grows (initial_batch func n)"
  by (auto simp: initial_batch_def)

lemma grows_random_search_loop [intro!, simp]: "grows (random_search_loop func n r)"
  by (induction n arbitrary: r) auto

lemma grows_methods_loop [intro!, simp]:
  "grows (methods_loop lib func dir X_init y_init n ms tbl)"
  by (induction ms arbitrary: tbl) auto

section \<open>What the completed operations did\<close>

lemma np_copy_eq [simp]:
  "np_copy p st = (r, st') \<longleftrightarrow>
     r = Inr (length (heap st)) \<and> st' = st\<lparr>heap := heap st @ [heap st ! p]\<rparr>"
  by (auto simp: np_copy_def bind_io_def deref_def alloc_def)

lemma np_concatenate_Inr [simp]:
  "np_concatenate p q st = (Inr r, st') \<longleftrightarrow>
     ncols (heap st ! p) = ncols (heap st ! q) \<and> r = length (heap st) \<and>
     st' = st\<lparr>heap := heap st @
       [\<lparr>ncols = ncols (heap st ! p), rows = rows (heap st ! p) @ rows (heap st ! q)\<rparr>]\<rparr>"
  by (auto simp: np_concatenate_def bind_io_def deref_def alloc_def raise_io_def)

lemma call_f_Inr [simp]:
  "call_f func p st = (Inr r, st') \<longleftrightarrow>
     (\<exists>y. func_f func (heap st ! p) = Inr y \<and> r = length (heap st) \<and>
          st' = st\<lparr>heap := heap st @ [y]\<rparr>)"
  by (auto simp: call_f_def bind_io_def deref_def alloc_def lift_io_def split: sum.splits)

lemma call_random_x_Inr [simp]:
  "call_random_x func st = (Inr r, st') \<longleftrightarrow>
     (\<exists>x. func_random_x func (hist st) = Inr x \<and> r = length (heap st) \<and>
          st' = st\<lparr>hist := hist st @ [RandomX], heap := heap st @ [x]\<rparr>)"
  by (auto simp: call_random_x_def bind_io_def external_def alloc_def split: sum.splits)

lemma create_study_Inr:
  "create_study lib self dir st = (Inr self', st') \<longleftrightarrow>
     (\<exists>s. sampler self = Some s \<and> optuna_create_study lib (hist st) dir s = None \<and>
          self' = self\<lparr>study := Some (length (hist st))\<rparr> \<and>
          st' = st\<lparr>hist := hist st @ [CreateStudy dir s]\<rparr>)"
  by (cases "sampler self") (auto simp: create_study_def bind_io_Inr)

section \<open>The small library and test function\<close>

lemma demo_function_interface: "target_function_interface demo_function"
  by (simp add: target_function_interface_def demo_function_def)

lemma demo_optuna_suggests_within: "suggests_within demo_optuna"
  unfolding suggests_within_def
proof (rule conjI; intro allI impI)
  fix h t feature low high v
  assume "optuna_suggest_float demo_optuna h t feature low high = Inr v"
  then have "fle low high" "v = low"
    by (auto simp: demo_optuna_def split: if_splits)
  then show "fle low v \<and> fle v high"
    using fle_not_NaN [of low high] fle_refl [of low] by simp
next
  fix h t feature choices v
  assume "optuna_suggest_categorical demo_optuna h t feature choices = Inr v"
  then show "v \<in> set choices"
    by (auto simp: demo_optuna_def split: list.splits)
qed

lemma demo_numeric_choices: "numeric_choices (func_distributions demo_function)"
  by (simp add: numeric_choices_def demo_function_def)

section \<open>An unrecognized strategy\<close>

lemma Optimizer_init_unrecognized:
  "sampler_name \<notin> set SamplerName \<Longrightarrow> Optimizer_init sampler_name = \<lparr>sampler = None, study = None\<rparr>"
  by (simp add: SamplerName_def Optimizer_init_def)

lemma set_samples_loop_no_study:
  assumes "study self = None"
  shows "set_samples_loop lib self ds ps st = (Inr (), st) \<or>
         (\<exists>e. set_samples_loop lib self ds ps st = (Inl e, st))"
proof (cases ps)
  case Nil
  then show ?thesis by simp
next
  case (Cons p rest)
  obtain X y where p: "p = (X, y)" by (cases p)
  show ?thesis
  proof (cases y)
    case Nil
    then show ?thesis using Cons p by simp
  next
    case (Cons y0 y')
    then show ?thesis
      using \<open>ps = p # rest\<close> p assms
      by (cases "optuna_create_trial lib (zip (map fst ds) X) ds y0")
         (simp_all add: bind_io_def raises_def lift_io_def)
  qed
qed

lemma get_candidate_no_study:
  assumes "study self = None"
  shows "\<exists>e. get_candidate lib self Xs ys ds st = (Inl e, st)"
proof -
  let ?ps = "zip (rows (heap st ! Xs)) (rows (heap st ! ys))"
  have s: "set_samples lib self Xs ys ds st = set_samples_loop lib self ds ?ps st"
    by (simp add: set_samples_def bind_io_def deref_def)
  from set_samples_loop_no_study [OF assms, of lib ds ?ps st]
  show ?thesis
    using assms by (auto simp: get_candidate_def bind_io_def s)
qed

text \<open>
  Claim C8: constructing an \<^verbatim>\<open>Optimizer\<close> with a strategy identifier that is none of the
  recognized names raises nothing and assigns no \<^verbatim>\<open>sampler\<close> attribute (nor a study); the
  failure comes later: \<^verbatim>\<open>create_study\<close> raises \<^verbatim>\<open>AttributeError\<close> before it calls the library,
  and \<^verbatim>\<open>get_candidate\<close> raises too, at the latest when it reads the study that was never
  assigned (it may have called \<^verbatim>\<open>create_trial\<close> once by then); neither registers anything
  nor changes the store.
\<close>

theorem unrecognized_sampler_name:
  assumes "sampler_name \<notin> set SamplerName"
  shows "Optimizer_init sampler_name = \<lparr>sampler = None, study = None\<rparr>
       \<and> create_study lib (Optimizer_init sampler_name) dir st = (Inl AttributeError, st)
       \<and> (\<exists>e. get_candidate lib (Optimizer_init sampler_name) Xs ys ds st = (Inl e, st))"
proof -
  note init = Optimizer_init_unrecognized [OF assms]
  have "create_study lib (Optimizer_init sampler_name) dir st = (Inl AttributeError, st)"
    by (simp add: init create_study_def)
  moreover have "\<exists>e. get_candidate lib (Optimizer_init sampler_name) Xs ys ds st = (Inl e, st)"
    by (rule get_candidate_no_study) (simp add: init)
  ultimately show ?thesis using init by simp
qed

theorem unrecognized_sampler_name_witness:
  "''random'' \<notin> set SamplerName
   \<and> Optimizer_init ''random'' = \<lparr>sampler = None, study = None\<rparr>
   \<and> create_study demo_optuna (Optimizer_init ''random'') ''minimize'' demo_state
       = (Inl AttributeError, demo_state)
   \<and> (\<exists>e. get_candidate demo_optuna (Optimizer_init ''random'') 0 1 (func_distributions demo_function)
            demo_state = (Inl e, demo_state))"
proof -
  have "''random'' \<notin> set SamplerName"
    by (simp add: SamplerName_def TPE_def EIGammaPrior_def EIDimScaledPrior_def EISaas_def
        LogEIGammaPrior_def LogEIDimScaledPrior_def LCB_def ThompsonSampling_def EXPERIMENTAL_def)
  then show ?thesis
    using unrecognized_sampler_name [of "''random''" demo_optuna "''minimize''" demo_state 0 1
        "func_distributions demo_function"]
    by blast
qed

text \<open>
  So a run of \<^verbatim>\<open>run_optimization\<close> with such an identifier and at least one iteration ends
  with \<^verbatim>\<open>AttributeError\<close>.
\<close>

lemma run_optimization_unrecognized:
  assumes "sampler_name \<notin> set SamplerName"
  shows "\<exists>st'. run_optimization lib func dir X_init y_init sampler_name (Suc n) st = (Inl AttributeError, st')"
  by (simp add: run_optimization_def loop_entry_def np_copy_def bind_io_def deref_def alloc_def
      return_io_def iteration_def create_study_def raise_io_def Optimizer_init_unrecognized [OF assms])

section \<open>get_candidate\<close>

lemma set_samples_loop_Inr:
  assumes "set_samples_loop lib self ds ps st = (Inr u, st')" "study self = Some h"
  shows "st' = st\<lparr>hist := hist st @
           map (\<lambda>(X, y). AddTrial h (FrozenTrial (zip (map fst ds) X) ds (hd y))) ps\<rparr>"
  using assms
proof (induction ps arbitrary: st)
  case Nil
  then show ?case by simp
next
  case (Cons p ps)
  obtain X y where p: "p = (X, y)" by (cases p)
  from Cons.prems obtain y0 y' where y: "y = y0 # y'"
    by (cases y) (auto simp: p)
  let ?t = "FrozenTrial (zip (map fst ds) X) ds y0"
  let ?st1 = "st\<lparr>hist := hist st @ [AddTrial h ?t]\<rparr>"
  have "set_samples_loop lib self ds ps ?st1 = (Inr u, st')"
    using Cons.prems by (auto simp: p y bind_io_Inr Let_def)
  from Cons.IH [OF this Cons.prems(2)] show ?case
    by (simp add: p y)
qed

lemma set_samples_Inr:
  assumes "set_samples lib self Xs ys ds st = (Inr u, st')" "study self = Some h"
  shows "st' = st\<lparr>hist := hist st @ map (AddTrial h) (replayed ds (heap st ! Xs) (heap st ! ys))\<rparr>"
proof -
  have "set_samples_loop lib self ds (zip (rows (heap st ! Xs)) (rows (heap st ! ys))) st = (Inr u, st')"
    using assms(1) by (simp add: set_samples_def bind_io_Inr)
  from set_samples_loop_Inr [OF this assms(2)] show ?thesis
    by (simp add: replayed_def split_def comp_def)
qed

lemma suggest_loop_state:
  assumes "suggest_loop lib t ds acc st = (Inr new_X, st')"
  shows "st' = st\<lparr>hist := hist st @ suggest_calls t ds\<rparr>"
  using assms
proof (induction ds arbitrary: acc st)
  case Nil
  then show ?case by (simp add: suggest_calls_def)
next
  case (Cons p ds)
  obtain feature d where p: "p = (feature, d)" by (cases p)
  show ?case
  proof (cases d)
    case (FloatDistribution low high)
    then obtain v where
      "suggest_loop lib t ds (acc @ [Number v]) (st\<lparr>hist := hist st @ [SuggestFloat t feature low high]\<rparr>)
         = (Inr new_X, st')"
      using Cons.prems by (auto simp: p bind_io_Inr)
    from Cons.IH [OF this] show ?thesis
      by (simp add: p FloatDistribution suggest_calls_def)
  next
    case (CategoricalDistribution choices)
    then obtain v where
      "suggest_loop lib t ds (acc @ [v]) (st\<lparr>hist := hist st @ [SuggestCategorical t feature choices]\<rparr>)
         = (Inr new_X, st')"
      using Cons.prems by (auto simp: p bind_io_Inr)
    from Cons.IH [OF this] show ?thesis
      by (simp add: p CategoricalDistribution suggest_calls_def)
  next
    case OtherDistribution
    then have "suggest_loop lib t ds acc st = (Inr new_X, st')"
      using Cons.prems by (simp add: p)
    from Cons.IH [OF this] show ?thesis
      by (simp add: p OtherDistribution suggest_calls_def)
  qed
qed

lemma numbers_Some_iff: "numbers cs = Some row \<longleftrightarrow> cs = map Number row"
proof (induction cs arbitrary: row)
  case Nil
  show ?case by auto
next
  case (Cons c cs)
  show ?case
  proof (cases c)
    case (Number x)
    show ?thesis using Cons.IH by (cases row) (auto simp: Number)
  next
    case (Str s)
    show ?thesis by (cases row) (auto simp: Str)
  next
    case NoneChoice
    show ?thesis by (cases row) (auto simp: NoneChoice)
  qed
qed

lemma numbers_None_iff: "numbers cs = None \<longleftrightarrow> (\<exists>s. Str s \<in> set cs) \<or> NoneChoice \<in> set cs"
proof (induction cs)
  case Nil
  show ?case by simp
next
  case (Cons c cs)
  then show ?case by (cases c) auto
qed

lemma np_array_row_Inr:
  "np_array_row new_X st = (Inr a, st') \<longleftrightarrow>
     (case numbers new_X of
        Some row \<Rightarrow> a = FloatArray (length (heap st)) \<and>
           st' = st\<lparr>heap := heap st @ [\<lparr>ncols = length new_X, rows = [row]\<rparr>]\<rparr>
      | None \<Rightarrow> st' = st \<and>
           a = (if NoneChoice \<in> set new_X then ObjectArray [new_X] else TextArray [map str_of new_X]))"
  by (auto simp: np_array_row_def bind_io_def alloc_def return_io_def split: option.splits)

lemma get_candidate_Inr:
  assumes "get_candidate lib self Xs ys ds st = (Inr a, st')"
  obtains h new_X where
    "study self = Some h"
    "suggest_loop lib (length (hist st) + length (replayed ds (heap st ! Xs) (heap st ! ys))) ds []
       (st\<lparr>hist := hist st @ map (AddTrial h) (replayed ds (heap st ! Xs) (heap st ! ys)) @ [Ask h]\<rparr>)
     = (Inr new_X,
        st\<lparr>hist := hist st @ map (AddTrial h) (replayed ds (heap st ! Xs) (heap st ! ys)) @ Ask h #
             suggest_calls (length (hist st) + length (replayed ds (heap st ! Xs) (heap st ! ys))) ds\<rparr>)"
    "np_array_row new_X
       (st\<lparr>hist := hist st @ map (AddTrial h) (replayed ds (heap st ! Xs) (heap st ! ys)) @ Ask h #
             suggest_calls (length (hist st) + length (replayed ds (heap st ! Xs) (heap st ! ys))) ds\<rparr>)
     = (Inr a, st')"
proof -
  from assms obtain u st1 where
    1: "set_samples lib self Xs ys ds st = (Inr u, st1)" and
    2: "(case study self of None \<Rightarrow> raise_io AttributeError
         | Some h \<Rightarrow>
           bind_io (external (Ask h) (\<lambda>hs. raises (optuna_ask lib hs h) (length hs))) (\<lambda>trial.
           bind_io (suggest_loop lib trial ds []) np_array_row)) st1 = (Inr a, st')"
    unfolding get_candidate_def by (erule bind_io_InrE)
  from 2 obtain h where h: "study self = Some h"
    by (cases "study self") auto
  note st1 = set_samples_Inr [OF 1 h]
  from 2 h have "bind_io (external (Ask h) (\<lambda>hs. raises (optuna_ask lib hs h) (length hs))) (\<lambda>trial.
           bind_io (suggest_loop lib trial ds []) np_array_row) st1 = (Inr a, st')"
    by simp
  then obtain t sta where
    ask: "external (Ask h) (\<lambda>hs. raises (optuna_ask lib hs h) (length hs)) st1 = (Inr t, sta)" and
    rest: "bind_io (suggest_loop lib t ds []) np_array_row sta = (Inr a, st')"
    by (erule bind_io_InrE)
  from ask have t: "t = length (hist st1)" and sta: "sta = st1\<lparr>hist := hist st1 @ [Ask h]\<rparr>"
    by simp_all
  from rest obtain new_X st2 where
    3: "suggest_loop lib t ds [] sta = (Inr new_X, st2)" and
    4: "np_array_row new_X st2 = (Inr a, st')"
    by (erule bind_io_InrE)
  note st2 = suggest_loop_state [OF 3]
  show ?thesis
  proof (rule that [OF h, of new_X])
    show "suggest_loop lib (length (hist st) + length (replayed ds (heap st ! Xs) (heap st ! ys))) ds []
       (st\<lparr>hist := hist st @ map (AddTrial h) (replayed ds (heap st ! Xs) (heap st ! ys)) @ [Ask h]\<rparr>)
     = (Inr new_X,
        st\<lparr>hist := hist st @ map (AddTrial h) (replayed ds (heap st ! Xs) (heap st ! ys)) @ Ask h #
             suggest_calls (length (hist st) + length (replayed ds (heap st ! Xs) (heap st ! ys))) ds\<rparr>)"
      using 3 st2 by (simp add: st1 t sta)
    show "np_array_row new_X
       (st\<lparr>hist := hist st @ map (AddTrial h) (replayed ds (heap st ! Xs) (heap st ! ys)) @ Ask h #
             suggest_calls (length (hist st) + length (replayed ds (heap st ! Xs) (heap st ! ys))) ds\<rparr>)
     = (Inr a, st')"
      using 4 st2 by (simp add: st1 t sta)
  qed
qed

lemma get_candidate_FloatArray:
  assumes "get_candidate lib self Xs ys ds st = (Inr (FloatArray p), st')"
  obtains h row where
    "study self = Some h"
    "suggest_loop lib (length (hist st) + length (replayed ds (heap st ! Xs) (heap st ! ys))) ds []
       (st\<lparr>hist := hist st @ map (AddTrial h) (replayed ds (heap st ! Xs) (heap st ! ys)) @ [Ask h]\<rparr>)
     = (Inr (map Number row),
        st\<lparr>hist := hist st @ map (AddTrial h) (replayed ds (heap st ! Xs) (heap st ! ys)) @ Ask h #
             suggest_calls (length (hist st) + length (replayed ds (heap st ! Xs) (heap st ! ys))) ds\<rparr>)"
    "p = length (heap st)"
    "st' = st\<lparr>hist := hist st @ map (AddTrial h) (replayed ds (heap st ! Xs) (heap st ! ys)) @ Ask h #
               suggest_calls (length (hist st) + length (replayed ds (heap st ! Xs) (heap st ! ys))) ds,
             heap := heap st @ [\<lparr>ncols = length row, rows = [row]\<rparr>]\<rparr>"
proof -
  from assms obtain h new_X where
    h: "study self = Some h" and
    loop: "suggest_loop lib (length (hist st) + length (replayed ds (heap st ! Xs) (heap st ! ys))) ds []
       (st\<lparr>hist := hist st @ map (AddTrial h) (replayed ds (heap st ! Xs) (heap st ! ys)) @ [Ask h]\<rparr>)
     = (Inr new_X,
        st\<lparr>hist := hist st @ map (AddTrial h) (replayed ds (heap st ! Xs) (heap st ! ys)) @ Ask h #
             suggest_calls (length (hist st) + length (replayed ds (heap st ! Xs) (heap st ! ys))) ds\<rparr>)" and
    arr: "np_array_row new_X
       (st\<lparr>hist := hist st @ map (AddTrial h) (replayed ds (heap st ! Xs) (heap st ! ys)) @ Ask h #
             suggest_calls (length (hist st) + length (replayed ds (heap st ! Xs) (heap st ! ys))) ds\<rparr>)
     = (Inr (FloatArray p), st')"
    by (rule get_candidate_Inr)
  from arr obtain row where row: "numbers new_X = Some row"
    by (cases "numbers new_X") (auto simp: np_array_row_Inr split: if_splits)
  then have new_X: "new_X = map Number row" by (simp add: numbers_Some_iff)
  show ?thesis
  proof (rule that [OF h, of row])
    show "suggest_loop lib (length (hist st) + length (replayed ds (heap st ! Xs) (heap st ! ys))) ds []
       (st\<lparr>hist := hist st @ map (AddTrial h) (replayed ds (heap st ! Xs) (heap st ! ys)) @ [Ask h]\<rparr>)
     = (Inr (map Number row),
        st\<lparr>hist := hist st @ map (AddTrial h) (replayed ds (heap st ! Xs) (heap st ! ys)) @ Ask h #
             suggest_calls (length (hist st) + length (replayed ds (heap st ! Xs) (heap st ! ys))) ds\<rparr>)"
      using loop by (simp add: new_X)
    show "p = length (heap st)" using arr row by (simp add: np_array_row_Inr)
    show "st' = st\<lparr>hist := hist st @ map (AddTrial h) (replayed ds (heap st ! Xs) (heap st ! ys)) @ Ask h #
               suggest_calls (length (hist st) + length (replayed ds (heap st ! Xs) (heap st ! ys))) ds,
             heap := heap st @ [\<lparr>ncols = length row, rows = [row]\<rparr>]\<rparr>"
      using arr row by (simp add: np_array_row_Inr new_X)
  qed
qed

lemma in_numeric_distribution:
  assumes "in_distribution v d"
    and "case d of CategoricalDistribution choices \<Rightarrow> numbers choices \<noteq> None | _ \<Rightarrow> True"
  obtains x where "v = Number x"
proof (cases d)
  case (FloatDistribution low high)
  then show ?thesis using assms(1) that by (cases v) simp_all
next
  case (CategoricalDistribution choices)
  then obtain row where "choices = map Number row" and "v \<in> set choices"
    using assms by (auto simp: numbers_Some_iff)
  then show ?thesis using that by auto
next
  case OtherDistribution
  then show ?thesis using assms(1) by simp
qed

lemma suggest_loop_within:
  assumes "suggest_loop lib t ds acc st = (Inr new_X, st')" "suggests_within lib" "numeric_choices ds"
  shows "\<exists>row. new_X = acc @ map Number row \<and>
           list_all2 (\<lambda>v p. (\<exists>h t. suggest_answer lib h t p = Inr (Number v)) \<and>
                             in_distribution (Number v) (snd p)) row (suggested ds)"
  using assms(1,3)
proof (induction ds arbitrary: acc st)
  case Nil
  then show ?case by (simp add: suggested_def)
next
  case (Cons p ds)
  obtain feature d where p: "p = (feature, d)" by (cases p)
  have ds: "numeric_choices ds"
    using Cons.prems(2) by (simp add: numeric_choices_def p)
  have d: "case d of CategoricalDistribution choices \<Rightarrow> numbers choices \<noteq> None | _ \<Rightarrow> True"
    using Cons.prems(2) by (cases d) (simp_all add: numeric_choices_def p)
  show ?case
  proof (cases "d = OtherDistribution")
    case True
    then have "suggest_loop lib t ds acc st = (Inr new_X, st')"
      using Cons.prems(1) by (simp add: p)
    from Cons.IH [OF this ds] show ?thesis
      by (simp add: p True suggested_def)
  next
    case False
    then obtain c where
      c: "suggest_answer lib (hist st) t p = Inr c" and
      rest: "suggest_loop lib t ds (acc @ [c]) (st\<lparr>hist := hist st @ suggest_call t p\<rparr>) = (Inr new_X, st')"
      using Cons.prems(1) by (cases d) (auto simp: p bind_io_Inr split: sum.splits)
    have ind: "in_distribution c d"
      using c assms(2) False by (cases d) (auto simp: p suggests_within_def split: sum.splits)
    obtain x where x: "c = Number x" using ind d by (rule in_numeric_distribution)
    from Cons.IH [OF rest ds] obtain row where
      row: "new_X = (acc @ [c]) @ map Number row"
        "list_all2 (\<lambda>v p. (\<exists>h t. suggest_answer lib h t p = Inr (Number v)) \<and>
                             in_distribution (Number v) (snd p)) row (suggested ds)"
      by blast
    have here: "(\<exists>h t. suggest_answer lib h t p = Inr (Number x)) \<and> in_distribution (Number x) (snd p)"
      using c ind x p by auto
    have "new_X = acc @ map Number (x # row) \<and>
       list_all2 (\<lambda>v p. (\<exists>h t. suggest_answer lib h t p = Inr (Number v)) \<and>
                             in_distribution (Number v) (snd p)) (x # row) (suggested (p # ds))"
      using row here False by (simp add: x suggested_def p)
    then show ?thesis by blast
  qed
qed

lemma suggest_loop_answers:
  assumes "suggest_loop lib t ds acc st = (Inr new_X, st')" "continuous_or_categorical ds"
  shows "\<exists>vs. new_X = acc @ vs \<and> length vs = length ds \<and>
           (\<forall>i < length ds.
              suggest_answer lib (hist st @ suggest_calls t (take i ds)) t (ds ! i) = Inr (vs ! i))"
  using assms
proof (induction ds arbitrary: acc st)
  case Nil
  then show ?case by simp
next
  case (Cons p ds)
  obtain feature d where p: "p = (feature, d)" by (cases p)
  have ds: "continuous_or_categorical ds" and d: "d \<noteq> OtherDistribution"
    using Cons.prems(2) by (simp_all add: continuous_or_categorical_def p)
  obtain v where
    v: "suggest_answer lib (hist st) t p = Inr v" and
    rest: "suggest_loop lib t ds (acc @ [v]) (st\<lparr>hist := hist st @ suggest_call t p\<rparr>) = (Inr new_X, st')"
    using Cons.prems(1) d by (cases d) (auto simp: p bind_io_Inr split: sum.splits)
  from Cons.IH [OF rest ds] obtain vs where
    vs: "new_X = (acc @ [v]) @ vs" "length vs = length ds"
        "\<forall>i < length ds.
           suggest_answer lib ((hist st @ suggest_call t p) @ suggest_calls t (take i ds)) t (ds ! i)
             = Inr (vs ! i)"
    by auto
  have "suggest_answer lib (hist st @ suggest_calls t (take i (p # ds))) t ((p # ds) ! i)
          = Inr ((v # vs) ! i)" if "i < length (p # ds)" for i
  proof (cases i)
    case 0
    then show ?thesis using v by (simp add: suggest_calls_def)
  next
    case (Suc k)
    then have "k < length ds" using that by simp
    then show ?thesis using vs(3) Suc by (simp add: suggest_calls_def)
  qed
  then have "new_X = acc @ (v # vs) \<and> length (v # vs) = length (p # ds) \<and>
       (\<forall>i < length (p # ds).
          suggest_answer lib (hist st @ suggest_calls t (take i (p # ds))) t ((p # ds) ! i)
            = Inr ((v # vs) ! i))"
    using vs by simp
  then show ?case by blast
qed

text \<open>
  Claim C3, as amended: over a search space whose categorical choices are all numbers, and
  with a library that keeps its promise (\<open>suggests_within\<close>), the candidate that a completed
  \<^verbatim>\<open>get_candidate\<close> returns is one row of numbers whose entries are, in key order, within the
  continuous and categorical descriptors of the search space: in \<^verbatim>\<open>[low, high]\<close> for a
  continuous feature, one of the declared choices for a categorical one. Each entry is
  what the library returned to a call made with that feature's own bounds or choices;
  \<^verbatim>\<open>get_candidate\<close> itself checks nothing.
\<close>

theorem get_candidate_within_distributions:
  assumes "suggests_within lib"
    and "numeric_choices distributions"
    and "get_candidate lib self Xs ys distributions st = (Inr candidate, st')"
  shows "within_distributions st' candidate distributions
       \<and> (\<exists>new_X row. candidate = FloatArray new_X \<and> rows (heap st' ! new_X) = [row]
             \<and> list_all2 (\<lambda>v p. \<exists>h t. suggest_answer lib h t p = Inr (Number v)) row
                   (suggested distributions))"
proof -
  let ?reg = "replayed distributions (heap st ! Xs) (heap st ! ys)"
  let ?st2 = "st\<lparr>hist := hist st @ map (AddTrial h) ?reg @ Ask h #
             suggest_calls (length (hist st) + length ?reg) distributions\<rparr>"
  from assms(3) obtain h new_X where
    loop: "suggest_loop lib (length (hist st) + length ?reg) distributions []
       (st\<lparr>hist := hist st @ map (AddTrial h) ?reg @ [Ask h]\<rparr>)
     = (Inr new_X,
        st\<lparr>hist := hist st @ map (AddTrial h) ?reg @ Ask h #
             suggest_calls (length (hist st) + length ?reg) distributions\<rparr>)"
    and arr: "np_array_row new_X
        (st\<lparr>hist := hist st @ map (AddTrial h) ?reg @ Ask h #
             suggest_calls (length (hist st) + length ?reg) distributions\<rparr>) = (Inr candidate, st')"
    by (rule get_candidate_Inr)
  from suggest_loop_within [OF loop assms(1,2)] obtain row where
    new_X: "new_X = map Number row" and
    row: "list_all2 (\<lambda>v p. (\<exists>h t. suggest_answer lib h t p = Inr (Number v)) \<and>
                             in_distribution (Number v) (snd p)) row (suggested distributions)"
    by auto
  have num: "numbers new_X = Some row" by (simp add: numbers_Some_iff new_X)
  have c: "candidate = FloatArray (length (heap st))"
    and st': "heap st' = heap st @ [\<lparr>ncols = length new_X, rows = [row]\<rparr>]"
    using arr by (simp_all add: np_array_row_Inr num)
  have r: "rows (heap st' ! length (heap st)) = [row]" by (simp add: st')
  have 1: "list_all2 (\<lambda>v p. in_distribution (Number v) (snd p)) row (suggested distributions)"
    using row by (rule list_all2_mono) simp
  have 2: "list_all2 (\<lambda>v p. \<exists>h t. suggest_answer lib h t p = Inr (Number v)) row (suggested distributions)"
    using row by (rule list_all2_mono) simp
  have "within_distributions st' candidate distributions"
    using 1 by (simp add: c r)
  moreover have "\<exists>new_X row. candidate = FloatArray new_X \<and> rows (heap st' ! new_X) = [row]
             \<and> list_all2 (\<lambda>v p. \<exists>h t. suggest_answer lib h t p = Inr (Number v)) row
                   (suggested distributions)"
    using c r 2 by blast
  ultimately show ?thesis by (rule conjI)
qed

theorem get_candidate_within_distributions_witness:
  "suggests_within demo_optuna
   \<and> numeric_choices (func_distributions demo_function)
   \<and> fst (get_candidate demo_optuna \<lparr>sampler = Some TPESampler, study = Some 0\<rparr> 0 1
            (func_distributions demo_function) demo_study_state) = Inr (FloatArray 2)
   \<and> within_distributions
        (snd (get_candidate demo_optuna \<lparr>sampler = Some TPESampler, study = Some 0\<rparr> 0 1
            (func_distributions demo_function) demo_study_state))
        (FloatArray 2) (func_distributions demo_function)
   \<and> (\<exists>new_X row. FloatArray 2 = FloatArray new_X
        \<and> rows (heap (snd (get_candidate demo_optuna \<lparr>sampler = Some TPESampler, study = Some 0\<rparr> 0 1
            (func_distributions demo_function) demo_study_state)) ! new_X) = [row]
        \<and> list_all2 (\<lambda>v p. \<exists>h t. suggest_answer demo_optuna h t p = Inr (Number v)) row
             (suggested (func_distributions demo_function)))"
proof -
  let ?run = "get_candidate demo_optuna \<lparr>sampler = Some TPESampler, study = Some 0\<rparr> 0 1
            (func_distributions demo_function) demo_study_state"
  have run: "fst ?run = Inr (FloatArray 2)"
    by code_simp
  then have completed: "?run = (Inr (FloatArray 2), snd ?run)"
    by (simp add: prod_eq_iff)
  show ?thesis
    using demo_optuna_suggests_within demo_numeric_choices run
      get_candidate_within_distributions [OF demo_optuna_suggests_within demo_numeric_choices completed]
    by (intro conjI) simp_all
qed

text \<open>
  Claim C3 as stated, for every candidate row, fails in two ways. With a categorical
  feature whose choices are strings, \<^verbatim>\<open>np.array\<close> turns the whole row into text: the entry of
  the continuous feature \<^verbatim>\<open>x0\<close> is the string \<^verbatim>\<open>'-5.0'\<close>, not a number of \<^verbatim>\<open>[-5, 5]\<close>, although
  the library kept its promise. And nothing in \<^verbatim>\<open>get_candidate\<close> enforces the bounds: a
  \<^verbatim>\<open>suggest_float\<close> that returns \<open>99\<close> for \<^verbatim>\<open>[-5, 5]\<close> gives the row \<^verbatim>\<open>[99, 0]\<close>.
\<close>

theorem get_candidate_within_distributions_counterexample:
  "suggests_within demo_optuna
   \<and> fst (get_candidate demo_optuna \<lparr>sampler = Some TPESampler, study = Some 0\<rparr> 0 1
            demo_strings demo_empty_state)
       = Inr (TextArray [[Written (Fin (- 5)), Literal ''a'']])
   \<and> \<not> within_distributions
        (snd (get_candidate demo_optuna \<lparr>sampler = Some TPESampler, study = Some 0\<rparr> 0 1
            demo_strings demo_empty_state))
        (TextArray [[Written (Fin (- 5)), Literal ''a'']]) demo_strings
   \<and> fst (get_candidate unchecked_optuna \<lparr>sampler = Some TPESampler, study = Some 0\<rparr> 0 1
            (func_distributions demo_function) demo_study_state) = Inr (FloatArray 2)
   \<and> rows (heap (snd (get_candidate unchecked_optuna \<lparr>sampler = Some TPESampler, study = Some 0\<rparr> 0 1
            (func_distributions demo_function) demo_study_state)) ! 2) = [[Fin 99, Fin 0]]
   \<and> \<not> within_distributions
        (snd (get_candidate unchecked_optuna \<lparr>sampler = Some TPESampler, study = Some 0\<rparr> 0 1
            (func_distributions demo_function) demo_study_state))
        (FloatArray 2) (func_distributions demo_function)"
proof -
  have 1: "fst (get_candidate demo_optuna \<lparr>sampler = Some TPESampler, study = Some 0\<rparr> 0 1
            demo_strings demo_empty_state)
       = Inr (TextArray [[Written (Fin (- 5)), Literal ''a'']])"
    by code_simp
  have 2: "\<not> within_distributions
        (snd (get_candidate demo_optuna \<lparr>sampler = Some TPESampler, study = Some 0\<rparr> 0 1
            demo_strings demo_empty_state))
        (TextArray [[Written (Fin (- 5)), Literal ''a'']]) demo_strings"
    by (simp add: demo_strings_def suggested_def)
  have 3: "fst (get_candidate unchecked_optuna \<lparr>sampler = Some TPESampler, study = Some 0\<rparr> 0 1
            (func_distributions demo_function) demo_study_state) = Inr (FloatArray 2)"
    by code_simp
  have 4: "rows (heap (snd (get_candidate unchecked_optuna \<lparr>sampler = Some TPESampler, study = Some 0\<rparr> 0 1
            (func_distributions demo_function) demo_study_state)) ! 2) = [[Fin 99, Fin 0]]"
    by code_simp
  have 5: "\<not> within_distributions
        (snd (get_candidate unchecked_optuna \<lparr>sampler = Some TPESampler, study = Some 0\<rparr> 0 1
            (func_distributions demo_function) demo_study_state))
        (FloatArray 2) (func_distributions demo_function)"
    unfolding within_distributions.simps 4 by (simp add: demo_function_def suggested_def)
  show ?thesis
    using demo_optuna_suggests_within 1 2 3 4 5 by (intro conjI)
qed

text \<open>
  Claim C4, as amended: for a search space whose descriptors are all continuous or
  categorical, a completed \<^verbatim>\<open>get_candidate\<close> has asked the library for one value for each
  feature, in key order (these are the last calls of the history), and returns them in
  that order in one array of shape \<open>1 \<times> dim\<close>, where \<open>dim\<close> is the number of features. When
  all the values are numbers, the array is the numeric vector of these values, in a new
  array of the store; when one of them is \<^verbatim>\<open>None\<close>, it is an array of objects that holds the
  values; otherwise, when one of them is a string, it is an array of strings that holds the
  text of each value.
\<close>

theorem get_candidate_key_order:
  assumes "continuous_or_categorical distributions"
    and "get_candidate lib self Xs ys distributions st = (Inr candidate, st')"
  shows "\<exists>answers h t. length answers = length distributions
           \<and> hist st' = h @ suggest_calls t distributions
           \<and> (\<forall>i < length distributions.
                suggest_answer lib (h @ suggest_calls t (take i distributions)) t (distributions ! i)
                  = Inr (answers ! i))
           \<and> (\<forall>row. answers = map Number row \<longrightarrow>
                (\<exists>new_X. candidate = FloatArray new_X \<and>
                   heap st' ! new_X = \<lparr>ncols = length distributions, rows = [row]\<rparr>))
           \<and> (NoneChoice \<in> set answers \<longrightarrow> candidate = ObjectArray [answers])
           \<and> ((\<exists>s. Str s \<in> set answers) \<and> NoneChoice \<notin> set answers \<longrightarrow>
                candidate = TextArray [map str_of answers])"
proof -
  let ?reg = "replayed distributions (heap st ! Xs) (heap st ! ys)"
  from assms(2) obtain h answers where
    loop: "suggest_loop lib (length (hist st) + length ?reg) distributions []
       (st\<lparr>hist := hist st @ map (AddTrial h) ?reg @ [Ask h]\<rparr>)
     = (Inr answers,
        st\<lparr>hist := hist st @ map (AddTrial h) ?reg @ Ask h #
             suggest_calls (length (hist st) + length ?reg) distributions\<rparr>)"
    and arr: "np_array_row answers
        (st\<lparr>hist := hist st @ map (AddTrial h) ?reg @ Ask h #
             suggest_calls (length (hist st) + length ?reg) distributions\<rparr>) = (Inr candidate, st')"
    by (rule get_candidate_Inr)
  from suggest_loop_answers [OF loop assms(1)]
  have len: "length answers = length distributions"
    and ans: "\<forall>i < length distributions.
       suggest_answer lib ((hist st @ map (AddTrial h) ?reg @ [Ask h]) @
           suggest_calls (length (hist st) + length ?reg) (take i distributions))
         (length (hist st) + length ?reg) (distributions ! i) = Inr (answers ! i)"
    by auto
  have hist: "hist st' = (hist st @ map (AddTrial h) ?reg @ [Ask h]) @
      suggest_calls (length (hist st) + length ?reg) distributions"
    using arr by (cases "numbers answers") (auto simp: np_array_row_Inr)
  have float: "\<exists>new_X. candidate = FloatArray new_X \<and>
       heap st' ! new_X = \<lparr>ncols = length distributions, rows = [row]\<rparr>"
    if "answers = map Number row" for row
  proof -
    from that have "numbers answers = Some row" by (simp add: numbers_Some_iff)
    then have "candidate = FloatArray (length (heap st))"
      and "heap st' = heap st @ [\<lparr>ncols = length answers, rows = [row]\<rparr>]"
      using arr by (simp_all add: np_array_row_Inr)
    then show ?thesis by (simp add: len)
  qed
  have obj: "candidate = ObjectArray [answers]" if "NoneChoice \<in> set answers"
  proof -
    from that have "numbers answers = None" by (simp add: numbers_None_iff)
    then show ?thesis using arr that by (simp add: np_array_row_Inr)
  qed
  have str: "candidate = TextArray [map str_of answers]"
    if "(\<exists>s. Str s \<in> set answers) \<and> NoneChoice \<notin> set answers"
  proof -
    from that have "numbers answers = None" by (simp add: numbers_None_iff)
    then show ?thesis using arr that by (simp add: np_array_row_Inr)
  qed
  show ?thesis
    using len hist ans float obj str by blast
qed

theorem get_candidate_key_order_witness:
  "continuous_or_categorical (func_distributions demo_function)
   \<and> fst (get_candidate demo_optuna \<lparr>sampler = Some TPESampler, study = Some 0\<rparr> 0 1
            (func_distributions demo_function) demo_study_state) = Inr (FloatArray 2)
   \<and> (\<exists>answers h t. length answers = length (func_distributions demo_function)
       \<and> hist (snd (get_candidate demo_optuna \<lparr>sampler = Some TPESampler, study = Some 0\<rparr> 0 1
            (func_distributions demo_function) demo_study_state))
           = h @ suggest_calls t (func_distributions demo_function)
       \<and> (\<forall>i < length (func_distributions demo_function).
            suggest_answer demo_optuna
              (h @ suggest_calls t (take i (func_distributions demo_function))) t
              (func_distributions demo_function ! i) = Inr (answers ! i))
       \<and> (\<forall>row. answers = map Number row \<longrightarrow>
            (\<exists>new_X. FloatArray 2 = FloatArray new_X \<and>
               heap (snd (get_candidate demo_optuna \<lparr>sampler = Some TPESampler, study = Some 0\<rparr> 0 1
                 (func_distributions demo_function) demo_study_state)) ! new_X
               = \<lparr>ncols = length (func_distributions demo_function), rows = [row]\<rparr>))
       \<and> (NoneChoice \<in> set answers \<longrightarrow> FloatArray 2 = ObjectArray [answers])
       \<and> ((\<exists>s. Str s \<in> set answers) \<and> NoneChoice \<notin> set answers \<longrightarrow>
            FloatArray 2 = TextArray [map str_of answers]))"
proof -
  let ?run = "get_candidate demo_optuna \<lparr>sampler = Some TPESampler, study = Some 0\<rparr> 0 1
            (func_distributions demo_function) demo_study_state"
  have cc: "continuous_or_categorical (func_distributions demo_function)"
    by (simp add: continuous_or_categorical_def demo_function_def)
  have run: "fst ?run = Inr (FloatArray 2)"
    by code_simp
  then have completed: "?run = (Inr (FloatArray 2), snd ?run)"
    by (simp add: prod_eq_iff)
  show ?thesis
    using cc run get_candidate_key_order [OF cc completed] by (intro conjI)
qed

text \<open>
  Claim C4 as stated, for every search space of continuous and categorical descriptors,
  fails when a categorical feature has string choices: the array returned is
  \<^verbatim>\<open>[['-5.0', 'a']]\<close>, an array of strings and not a numeric vector, and no array of floats
  has been made.
\<close>

theorem get_candidate_key_order_counterexample:
  "continuous_or_categorical demo_strings
   \<and> fst (get_candidate demo_optuna \<lparr>sampler = Some TPESampler, study = Some 0\<rparr> 0 1
            demo_strings demo_empty_state)
       = Inr (TextArray [[Written (Fin (- 5)), Literal ''a'']])
   \<and> \<not> (\<exists>new_X. fst (get_candidate demo_optuna \<lparr>sampler = Some TPESampler, study = Some 0\<rparr> 0 1
            demo_strings demo_empty_state) = Inr (FloatArray new_X))
   \<and> heap (snd (get_candidate demo_optuna \<lparr>sampler = Some TPESampler, study = Some 0\<rparr> 0 1
            demo_strings demo_empty_state)) = heap demo_empty_state"
proof -
  have cc: "continuous_or_categorical demo_strings"
    by (simp add: continuous_or_categorical_def demo_strings_def)
  have 1: "fst (get_candidate demo_optuna \<lparr>sampler = Some TPESampler, study = Some 0\<rparr> 0 1
            demo_strings demo_empty_state)
       = Inr (TextArray [[Written (Fin (- 5)), Literal ''a'']])"
    by code_simp
  have 2: "\<not> (\<exists>new_X. fst (get_candidate demo_optuna \<lparr>sampler = Some TPESampler, study = Some 0\<rparr> 0 1
            demo_strings demo_empty_state) = Inr (FloatArray new_X))"
    unfolding 1 by simp
  have 3: "heap (snd (get_candidate demo_optuna \<lparr>sampler = Some TPESampler, study = Some 0\<rparr> 0 1
            demo_strings demo_empty_state)) = heap demo_empty_state"
    by code_simp
  show ?thesis
    using cc 1 2 3 by (intro conjI)
qed

section \<open>The loop of run_optimization\<close>

lemma iteration_Inr:
  assumes "iteration lib func dir (self, Xs, ys) st = (Inr v', st')"
    and "Xs < length (heap st)" and "ys < length (heap st)"
  obtains s row y where
    "sampler self = Some s"
    "hist st' = hist st @
       iteration_calls (length (hist st)) dir s (func_distributions func) (heap st ! Xs) (heap st ! ys)"
    "func_f func \<lparr>ncols = length row, rows = [row]\<rparr> = Inr y"
    "heap st' = heap st @
       [\<lparr>ncols = length row, rows = [row]\<rparr>, y,
        \<lparr>ncols = ncols (heap st ! Xs), rows = rows (heap st ! Xs) @ [row]\<rparr>,
        \<lparr>ncols = ncols (heap st ! ys), rows = rows (heap st ! ys) @ rows y\<rparr>]"
    "v' = (self\<lparr>study := Some (length (hist st))\<rparr>, length (heap st) + 2, length (heap st) + 3)"
proof -
  let ?ds = "func_distributions func"
  from assms(1) obtain self1 st1 candidate st2 where
    cs: "create_study lib self dir st = (Inr self1, st1)" and
    gc0: "get_candidate lib self1 Xs ys ?ds st1 = (Inr candidate, st2)" and
    rest: "(case candidate of
          TextArray x \<Rightarrow> call_f_not_numeric func candidate
        | ObjectArray x \<Rightarrow> call_f_not_numeric func candidate
        | FloatArray new_X \<Rightarrow>
            bind_io (call_f func new_X) (\<lambda>new_y.
            bind_io (np_concatenate Xs new_X) (\<lambda>Xs'.
            bind_io (np_concatenate ys new_y) (\<lambda>ys'.
              return_io (self1, Xs', ys'))))) st2 = (Inr v', st')"
    unfolding iteration_def prod.case by (elim bind_io_InrE) auto
  from rest obtain new_X where candidate: "candidate = FloatArray new_X"
    by (cases candidate) (simp_all add: call_f_not_numeric_def)
  note gc = gc0 [unfolded candidate]
  from rest obtain new_y st3 Xs' st4 ys' where
    cf: "call_f func new_X st2 = (Inr new_y, st3)" and
    c1: "np_concatenate Xs new_X st3 = (Inr Xs', st4)" and
    c2: "np_concatenate ys new_y st4 = (Inr ys', st')" and
    v': "v' = (self1, Xs', ys')"
    unfolding candidate array.case by (elim bind_io_InrE) auto
  from cs obtain s where s: "sampler self = Some s"
    and self1: "self1 = self\<lparr>study := Some (length (hist st))\<rparr>"
    and st1: "st1 = st\<lparr>hist := hist st @ [CreateStudy dir s]\<rparr>"
    by (auto simp: create_study_Inr)
  let ?reg = "replayed ?ds (heap st ! Xs) (heap st ! ys)"
  from gc obtain h row where
    h: "study self1 = Some h" and new_X: "new_X = length (heap st1)" and
    st2: "st2 = st1\<lparr>hist := hist st1 @
               map (AddTrial h) (replayed ?ds (heap st1 ! Xs) (heap st1 ! ys)) @ Ask h #
               suggest_calls (length (hist st1) + length (replayed ?ds (heap st1 ! Xs) (heap st1 ! ys))) ?ds,
             heap := heap st1 @ [\<lparr>ncols = length row, rows = [row]\<rparr>]\<rparr>"
    by (rule get_candidate_FloatArray)
  have h': "h = length (hist st)" using h by (simp add: self1)
  from cf obtain y where y: "func_f func (heap st2 ! new_X) = Inr y"
    and new_y: "new_y = length (heap st2)" and st3: "st3 = st2\<lparr>heap := heap st2 @ [y]\<rparr>"
    by auto
  have cand: "heap st2 ! new_X = \<lparr>ncols = length row, rows = [row]\<rparr>"
    by (simp add: st2 new_X)
  have heap3: "heap st3 = heap st @ [\<lparr>ncols = length row, rows = [row]\<rparr>, y]"
    by (simp add: st3 st2 st1)
  from c1 have Xs': "Xs' = length (heap st3)"
    and st4: "st4 = st3\<lparr>heap := heap st3 @
       [\<lparr>ncols = ncols (heap st3 ! Xs), rows = rows (heap st3 ! Xs) @ rows (heap st3 ! new_X)\<rparr>]\<rparr>"
    by simp_all
  have X3: "heap st3 ! Xs = heap st ! Xs" and n3: "heap st3 ! new_X = \<lparr>ncols = length row, rows = [row]\<rparr>"
    using assms(2) by (simp_all add: heap3 nth_append new_X st1)
  from c2 have ys': "ys' = length (heap st4)"
    and st': "st' = st4\<lparr>heap := heap st4 @
       [\<lparr>ncols = ncols (heap st4 ! ys), rows = rows (heap st4 ! ys) @ rows (heap st4 ! new_y)\<rparr>]\<rparr>"
    by simp_all
  have heap4: "heap st4 = heap st3 @
       [\<lparr>ncols = ncols (heap st ! Xs), rows = rows (heap st ! Xs) @ [row]\<rparr>]"
    by (simp add: st4 X3 n3)
  have y4: "heap st4 ! ys = heap st ! ys" and ny4: "heap st4 ! new_y = y"
    using assms(3) by (simp_all add: heap4 heap3 nth_append new_y st3 st2 st1)
  have heap': "heap st' = heap st4 @
       [\<lparr>ncols = ncols (heap st ! ys), rows = rows (heap st ! ys) @ rows y\<rparr>]"
    by (simp add: st' y4 ny4)
  show ?thesis
  proof (rule that [OF s _ _ _ _, of row y])
    show "hist st' = hist st @ iteration_calls (length (hist st)) dir s ?ds (heap st ! Xs) (heap st ! ys)"
      by (simp add: st' st4 st3 st2 st1 h' iteration_calls_def)
    show "func_f func \<lparr>ncols = length row, rows = [row]\<rparr> = Inr y"
      using y cand by simp
    show "heap st' = heap st @
       [\<lparr>ncols = length row, rows = [row]\<rparr>, y,
        \<lparr>ncols = ncols (heap st ! Xs), rows = rows (heap st ! Xs) @ [row]\<rparr>,
        \<lparr>ncols = ncols (heap st ! ys), rows = rows (heap st ! ys) @ rows y\<rparr>]"
      by (simp add: heap' heap4 heap3)
    show "v' = (self\<lparr>study := Some (length (hist st))\<rparr>, length (heap st) + 2, length (heap st) + 3)"
      by (simp add: v' self1 Xs' ys' heap4 heap3)
  qed
qed

lemma iterations_Suc_end:
  "iterations lib func dir (Suc n) v = bind_io (iterations lib func dir n v) (iteration lib func dir)"
proof (induction n arbitrary: v)
  case 0
  have "iterations lib func dir 0 = return_io" by (rule ext) simp
  then show ?case by simp
next
  case (Suc n)
  have "iterations lib func dir (Suc (Suc n)) v =
      bind_io (iteration lib func dir v) (iterations lib func dir (Suc n))"
    by simp
  also have "\<dots> = bind_io (iteration lib func dir v)
      (\<lambda>w. bind_io (iterations lib func dir n w) (iteration lib func dir))"
    using Suc.IH by presburger
  also have "\<dots> = bind_io (bind_io (iteration lib func dir v) (iterations lib func dir n))
      (iteration lib func dir)"
    by (simp add: bind_io_assoc)
  finally show ?case by simp
qed

lemma iterations_add:
  "iterations lib func dir (a + b) v = bind_io (iterations lib func dir a v) (iterations lib func dir b)"
proof (induction a arbitrary: v)
  case 0
  show ?case by simp
next
  case (Suc a)
  have "iterations lib func dir (Suc a + b) v =
      bind_io (iteration lib func dir v) (iterations lib func dir (a + b))"
    by simp
  also have "\<dots> = bind_io (iteration lib func dir v)
      (\<lambda>w. bind_io (iterations lib func dir a w) (iterations lib func dir b))"
    using Suc.IH by presburger
  finally show ?case by (simp add: bind_io_assoc)
qed

lemma iterations_Inr:
  assumes "iterations lib func dir n (self, Xs, ys) st = (Inr (self', Xs', ys'), st')"
    and "Xs < length (heap st)" and "ys < length (heap st)"
  shows "Xs' < length (heap st') \<and> ys' < length (heap st') \<and> sampler self' = sampler self"
  using assms
proof (induction n arbitrary: self Xs ys st)
  case 0
  then show ?case by simp
next
  case (Suc n)
  from Suc.prems(1) obtain v1 st1 where
    1: "iteration lib func dir (self, Xs, ys) st = (Inr v1, st1)" and
    2: "iterations lib func dir n v1 st1 = (Inr (self', Xs', ys'), st')"
    by (auto simp: bind_io_Inr)
  from 1 Suc.prems(2,3) obtain s row y where
    heap1: "heap st1 = heap st @
       [\<lparr>ncols = length row, rows = [row]\<rparr>, y,
        \<lparr>ncols = ncols (heap st ! Xs), rows = rows (heap st ! Xs) @ [row]\<rparr>,
        \<lparr>ncols = ncols (heap st ! ys), rows = rows (heap st ! ys) @ rows y\<rparr>]" and
    v1: "v1 = (self\<lparr>study := Some (length (hist st))\<rparr>, length (heap st) + 2, length (heap st) + 3)"
    by (rule iteration_Inr)
  have "Xs' < length (heap st') \<and> ys' < length (heap st') \<and>
      sampler self' = sampler (self\<lparr>study := Some (length (hist st))\<rparr>)"
    by (rule Suc.IH [OF 2 [unfolded v1]]) (simp_all add: heap1)
  then show ?case by simp
qed

lemma loop_entry_eq:
  assumes "y_init < length (heap st)"
  shows "loop_entry X_init y_init name st = (r, st') \<longleftrightarrow>
     r = Inr (Optimizer_init name, length (heap st), Suc (length (heap st))) \<and>
     st' = st\<lparr>heap := heap st @ [heap st ! X_init, heap st ! y_init]\<rparr>"
  using assms
  by (auto simp: loop_entry_def bind_io_def alloc_def deref_def np_copy_def return_io_def nth_append)

lemma iterations_fresh:
  assumes "iterations lib func dir n (self, Xs, ys) st = (Inr (self', Xs', ys'), st')"
    and "Xs < length (heap st)" and "ys < length (heap st)"
    and "m \<le> Xs" and "m \<le> ys"
  shows "m \<le> Xs' \<and> m \<le> ys'"
  using assms
proof (induction n arbitrary: self Xs ys st)
  case 0
  then show ?case by simp
next
  case (Suc n)
  from Suc.prems(1) obtain v1 st1 where
    1: "iteration lib func dir (self, Xs, ys) st = (Inr v1, st1)" and
    2: "iterations lib func dir n v1 st1 = (Inr (self', Xs', ys'), st')"
    by (auto simp: bind_io_Inr)
  from 1 Suc.prems(2,3) obtain s row y where
    heap1: "heap st1 = heap st @
       [\<lparr>ncols = length row, rows = [row]\<rparr>, y,
        \<lparr>ncols = ncols (heap st ! Xs), rows = rows (heap st ! Xs) @ [row]\<rparr>,
        \<lparr>ncols = ncols (heap st ! ys), rows = rows (heap st ! ys) @ rows y\<rparr>]" and
    v1: "v1 = (self\<lparr>study := Some (length (hist st))\<rparr>, length (heap st) + 2, length (heap st) + 3)"
    by (rule iteration_Inr)
  show ?case
  proof (rule Suc.IH [OF 2 [unfolded v1]])
    show "length (heap st) + 2 < length (heap st1)" by (simp add: heap1)
    show "length (heap st) + 3 < length (heap st1)" by (simp add: heap1)
    show "m \<le> length (heap st) + 2" using Suc.prems(2,4) by simp
    show "m \<le> length (heap st) + 3" using Suc.prems(3,5) by simp
  qed
qed

text \<open>
  A completed run of \<^verbatim>\<open>run_optimization\<close> has entered its loop with \<open>loop_entry\<close> and, for every
  \<open>k\<close> up to \<^verbatim>\<open>iters\<close>, has made \<open>k\<close> iterations and then the \<open>iters - k\<close> others, which ended
  with its result in its final state. The observations of the loop are arrays of the
  store that did not exist before the run.
\<close>

lemma run_optimization_split:
  assumes "X_init < length (heap st0)" and "y_init < length (heap st0)"
    and "run_optimization lib func dir X_init y_init sampler_name iters st0 = (Inr result, st_end)"
    and "k \<le> iters"
  obtains self Xs ys st self_end Xs_end st1 where
    "loop_entry X_init y_init sampler_name st0
       = (Inr (Optimizer_init sampler_name, length (heap st0), Suc (length (heap st0))), st1)"
    "heap st1 = heap st0 @ [heap st0 ! X_init, heap st0 ! y_init]"
    "iterations lib func dir k (Optimizer_init sampler_name, length (heap st0), Suc (length (heap st0))) st1
       = (Inr (self, Xs, ys), st)"
    "bind_io (loop_entry X_init y_init sampler_name) (iterations lib func dir k) st0
       = (Inr (self, Xs, ys), st)"
    "iterations lib func dir (iters - k) (self, Xs, ys) st = (Inr (self_end, Xs_end, result), st_end)"
    "Xs < length (heap st)" "ys < length (heap st)"
    "length (heap st0) \<le> Xs" "length (heap st0) \<le> ys"
proof -
  from assms(4) have iters: "iters = k + (iters - k)" by simp
  from assms(3) obtain v0 st1 where
    entry: "loop_entry X_init y_init sampler_name st0 = (Inr v0, st1)" and
    body: "bind_io (iterations lib func dir iters v0) (\<lambda>(self, Xs, ys). return_io ys) st1
       = (Inr result, st_end)"
    unfolding run_optimization_def by (rule bind_io_InrE)
  have v0: "v0 = (Optimizer_init sampler_name, length (heap st0), Suc (length (heap st0)))"
    and st1: "heap st1 = heap st0 @ [heap st0 ! X_init, heap st0 ! y_init]"
    using entry by (simp_all add: loop_entry_eq [OF assms(2)])
  from body obtain v_end st2 where
    loop: "iterations lib func dir iters v0 st1 = (Inr v_end, st2)" and
    ret: "(case v_end of (self, Xs, ys) \<Rightarrow> return_io ys) st2 = (Inr result, st_end)"
    by (rule bind_io_InrE)
  obtain self_end Xs_end where v_end: "v_end = (self_end, Xs_end, result)" and st2: "st2 = st_end"
    using ret by (cases v_end) auto
  from loop have "bind_io (iterations lib func dir k v0) (iterations lib func dir (iters - k)) st1
      = (Inr v_end, st2)"
    using iterations_add [of lib func dir k "iters - k" v0] iters by simp
  then obtain v st where
    pre: "iterations lib func dir k v0 st1 = (Inr v, st)" and
    post: "iterations lib func dir (iters - k) v st = (Inr v_end, st2)"
    by (rule bind_io_InrE)
  obtain self Xs ys where v: "v = (self, Xs, ys)" by (cases v)
  have valid: "Xs < length (heap st) \<and> ys < length (heap st) \<and>
      sampler self = sampler (Optimizer_init sampler_name)"
    by (rule iterations_Inr [OF pre [unfolded v0 v]]) (simp_all add: st1)
  have fresh: "length (heap st0) \<le> Xs \<and> length (heap st0) \<le> ys"
    by (rule iterations_fresh [OF pre [unfolded v0 v]]) (simp_all add: st1)
  have whole: "bind_io (loop_entry X_init y_init sampler_name) (iterations lib func dir k) st0
      = (Inr (self, Xs, ys), st)"
    unfolding bind_io_Inr using entry pre v by blast
  show ?thesis
  proof (rule that)
    show "loop_entry X_init y_init sampler_name st0
       = (Inr (Optimizer_init sampler_name, length (heap st0), Suc (length (heap st0))), st1)"
      using entry v0 by simp
    show "heap st1 = heap st0 @ [heap st0 ! X_init, heap st0 ! y_init]" by (rule st1)
    show "iterations lib func dir k
        (Optimizer_init sampler_name, length (heap st0), Suc (length (heap st0))) st1
       = (Inr (self, Xs, ys), st)"
      using pre v0 v by simp
    show "bind_io (loop_entry X_init y_init sampler_name) (iterations lib func dir k) st0
       = (Inr (self, Xs, ys), st)"
      by (rule whole)
    show "iterations lib func dir (iters - k) (self, Xs, ys) st = (Inr (self_end, Xs_end, result), st_end)"
      using post v v_end st2 by simp
    show "Xs < length (heap st)" "ys < length (heap st)" using valid by simp_all
    show "length (heap st0) \<le> Xs" "length (heap st0) \<le> ys" using fresh by simp_all
  qed
qed

text \<open>
  Claim C1: in every completed run of \<^verbatim>\<open>run_optimization\<close>, every iteration (the one after
  \<open>k\<close> iterations, for every \<open>k\<close> below \<^verbatim>\<open>iters\<close>) makes exactly the calls \<open>iteration_calls\<close>:
  it creates a new study, which replaces the one the \<^verbatim>\<open>Optimizer\<close> held, registers in it every
  pair of the observations \<^verbatim>\<open>Xs\<close>, \<^verbatim>\<open>ys\<close> it holds at that moment, in their order, and asks it
  for one trial, whose values it requests feature by feature. The iterations that remain
  after it end with the result and the final state of the run.
\<close>

theorem iteration_replays_observations:
  assumes "X_init < length (heap st0)" and "y_init < length (heap st0)"
    and "run_optimization lib func dir X_init y_init sampler_name iters st0 = (Inr result, st_end)"
    and "k < iters"
  shows "\<exists>self Xs ys st s v' st' self_end Xs_end.
      bind_io (loop_entry X_init y_init sampler_name) (iterations lib func dir k) st0
        = (Inr (self, Xs, ys), st)
    \<and> iteration lib func dir (self, Xs, ys) st = (Inr v', st')
    \<and> iterations lib func dir (iters - Suc k) v' st' = (Inr (self_end, Xs_end, result), st_end)
    \<and> sampler self = Some s
    \<and> fst v' = self\<lparr>study := Some (length (hist st))\<rparr>
    \<and> hist st' = hist st @
        iteration_calls (length (hist st)) dir s (func_distributions func) (heap st ! Xs) (heap st ! ys)"
proof -
  from assms(4) have le: "k \<le> iters" by simp
  from assms(1-3) le obtain self Xs ys st self_end Xs_end where
    a: "bind_io (loop_entry X_init y_init sampler_name) (iterations lib func dir k) st0
       = (Inr (self, Xs, ys), st)" and
    post: "iterations lib func dir (iters - k) (self, Xs, ys) st = (Inr (self_end, Xs_end, result), st_end)" and
    vX: "Xs < length (heap st)" and vy: "ys < length (heap st)"
    by (rule run_optimization_split)
  from assms(4) have "iters - k = Suc (iters - Suc k)" by simp
  with post have "bind_io (iteration lib func dir (self, Xs, ys)) (iterations lib func dir (iters - Suc k)) st
      = (Inr (self_end, Xs_end, result), st_end)"
    by simp
  then obtain v' st' where
    b: "iteration lib func dir (self, Xs, ys) st = (Inr v', st')" and
    c: "iterations lib func dir (iters - Suc k) v' st' = (Inr (self_end, Xs_end, result), st_end)"
    by (rule bind_io_InrE)
  from b vX vy obtain s row y where
    s: "sampler self = Some s" and
    h: "hist st' = hist st @
       iteration_calls (length (hist st)) dir s (func_distributions func) (heap st ! Xs) (heap st ! ys)" and
    v': "v' = (self\<lparr>study := Some (length (hist st))\<rparr>, length (heap st) + 2, length (heap st) + 3)"
    by (rule iteration_Inr)
  have d: "fst v' = self\<lparr>study := Some (length (hist st))\<rparr>"
    using v' by simp
  show ?thesis
    using a b c s d h by (intro exI conjI)
qed

theorem iteration_replays_observations_witness:
  "fst (run_optimization demo_optuna demo_function ''minimize'' 0 1 TPE 2 demo_state) = Inr 11
   \<and> (\<exists>self Xs ys st s v' st' self_end Xs_end.
        bind_io (loop_entry 0 1 TPE) (iterations demo_optuna demo_function ''minimize'' 1) demo_state
          = (Inr (self, Xs, ys), st)
      \<and> iteration demo_optuna demo_function ''minimize'' (self, Xs, ys) st = (Inr v', st')
      \<and> iterations demo_optuna demo_function ''minimize'' (2 - Suc 1) v' st'
          = (Inr (self_end, Xs_end, 11),
             snd (run_optimization demo_optuna demo_function ''minimize'' 0 1 TPE 2 demo_state))
      \<and> sampler self = Some s
      \<and> fst v' = self\<lparr>study := Some (length (hist st))\<rparr>
      \<and> hist st' = hist st @
          iteration_calls (length (hist st)) ''minimize'' s (func_distributions demo_function)
            (heap st ! Xs) (heap st ! ys))"
proof -
  let ?run = "run_optimization demo_optuna demo_function ''minimize'' 0 1 TPE 2 demo_state"
  have run: "fst ?run = Inr 11"
    by code_simp
  then have completed: "?run = (Inr 11, snd ?run)"
    by (simp add: prod_eq_iff)
  have v: "0 < length (heap demo_state)" "1 < length (heap demo_state)"
    by (simp_all add: demo_state_def)
  have k: "(1::nat) < 2" by simp
  show ?thesis
    using run iteration_replays_observations [OF v completed k] by (intro conjI)
qed

lemma iterations_grow:
  assumes "target_function_interface func"
    and "Xs < length (heap st)" and "ys < length (heap st)"
    and "iterations lib func dir n (self, Xs, ys) st = (Inr (self', Xs', ys'), st')"
  shows "Xs' < length (heap st') \<and> ys' < length (heap st')
    \<and> ncols (heap st' ! ys') = ncols (heap st ! ys)
    \<and> (\<exists>new_Xs new_ys. length new_Xs = n \<and> length new_ys = n
          \<and> rows (heap st' ! Xs') = rows (heap st ! Xs) @ new_Xs
          \<and> rows (heap st' ! ys') = rows (heap st ! ys) @ new_ys)"
  using assms(2-4)
proof (induction n arbitrary: self Xs ys st)
  case 0
  then show ?case by simp
next
  case (Suc n)
  from Suc.prems(3) obtain v1 st1 where
    1: "iteration lib func dir (self, Xs, ys) st = (Inr v1, st1)" and
    2: "iterations lib func dir n v1 st1 = (Inr (self', Xs', ys'), st')"
    by (auto simp: bind_io_Inr)
  from 1 Suc.prems(1,2) obtain s row y where
    "sampler self = Some s" and
    y: "func_f func \<lparr>ncols = length row, rows = [row]\<rparr> = Inr y" and
    heap1: "heap st1 = heap st @
       [\<lparr>ncols = length row, rows = [row]\<rparr>, y,
        \<lparr>ncols = ncols (heap st ! Xs), rows = rows (heap st ! Xs) @ [row]\<rparr>,
        \<lparr>ncols = ncols (heap st ! ys), rows = rows (heap st ! ys) @ rows y\<rparr>]" and
    v1: "v1 = (self\<lparr>study := Some (length (hist st))\<rparr>, length (heap st) + 2, length (heap st) + 3)"
    by (rule iteration_Inr)
  have ly: "length (rows y) = 1"
    using assms(1) y by (auto simp: target_function_interface_def)
  then obtain yrow where yrow: "rows y = [yrow]"
    by (cases "rows y") simp_all
  have X1: "rows (heap st1 ! (length (heap st) + 2)) = rows (heap st ! Xs) @ [row]"
    and y1: "rows (heap st1 ! (length (heap st) + 3)) = rows (heap st ! ys) @ [yrow]"
    and c1: "ncols (heap st1 ! (length (heap st) + 3)) = ncols (heap st ! ys)"
    by (simp_all add: heap1 nth_append yrow)
  have IH: "Xs' < length (heap st') \<and> ys' < length (heap st')
    \<and> ncols (heap st' ! ys') = ncols (heap st1 ! (length (heap st) + 3))
    \<and> (\<exists>new_Xs new_ys. length new_Xs = n \<and> length new_ys = n
          \<and> rows (heap st' ! Xs') = rows (heap st1 ! (length (heap st) + 2)) @ new_Xs
          \<and> rows (heap st' ! ys') = rows (heap st1 ! (length (heap st) + 3)) @ new_ys)"
  proof (rule Suc.IH [OF _ _ 2 [unfolded v1]])
    show "length (heap st) + 2 < length (heap st1)" by (simp add: heap1)
    show "length (heap st) + 3 < length (heap st1)" by (simp add: heap1)
  qed
  then obtain new_Xs new_ys where
    new: "length new_Xs = n" "length new_ys = n"
      "rows (heap st' ! Xs') = (rows (heap st ! Xs) @ [row]) @ new_Xs"
      "rows (heap st' ! ys') = (rows (heap st ! ys) @ [yrow]) @ new_ys"
    unfolding X1 y1 by blast
  have grown: "length (row # new_Xs) = Suc n \<and> length (yrow # new_ys) = Suc n
      \<and> rows (heap st' ! Xs') = rows (heap st ! Xs) @ (row # new_Xs)
      \<and> rows (heap st' ! ys') = rows (heap st ! ys) @ (yrow # new_ys)"
    using new by simp
  then have "\<exists>new_Xs new_ys. length new_Xs = Suc n \<and> length new_ys = Suc n
          \<and> rows (heap st' ! Xs') = rows (heap st ! Xs) @ new_Xs
          \<and> rows (heap st' ! ys') = rows (heap st ! ys) @ new_ys"
    by (intro exI)
  moreover have "Xs' < length (heap st')" "ys' < length (heap st')"
    "ncols (heap st' ! ys') = ncols (heap st ! ys)"
    using IH c1 by simp_all
  ultimately show ?case by (intro conjI)
qed

text \<open>
  Claim C5: in every completed run of \<^verbatim>\<open>run_optimization\<close> on an initial batch \<^verbatim>\<open>X_init\<close>,
  \<^verbatim>\<open>y_init\<close> with as many rows in each (and with a test function that keeps its interface),
  the observations \<^verbatim>\<open>Xs\<close> and \<^verbatim>\<open>ys\<close> after any number \<open>k\<close> of iterations have as many rows;
  each is the initial array with \<open>k\<close> rows added at the end, one for each iteration, and is
  a prefix of what the run ends with (the result is \<^verbatim>\<open>ys\<close> with \<open>iters - k\<close> more rows). They
  are held in arrays that did not exist before the run, and no array is ever written: the
  arrays at the start of the run are unchanged after \<open>k\<close> iterations, and those after \<open>k\<close>
  iterations are unchanged at the end.
\<close>

theorem observations_grow_by_concatenation:
  assumes "target_function_interface func"
    and "X_init < length (heap st0)" and "y_init < length (heap st0)"
    and "length (rows (heap st0 ! X_init)) = length (rows (heap st0 ! y_init))"
    and "run_optimization lib func dir X_init y_init sampler_name iters st0 = (Inr result, st_end)"
    and "k \<le> iters"
  shows "\<exists>self Xs ys st self_end Xs_end new_Xs new_ys rest_Xs rest_ys.
      bind_io (loop_entry X_init y_init sampler_name) (iterations lib func dir k) st0
        = (Inr (self, Xs, ys), st)
    \<and> iterations lib func dir (iters - k) (self, Xs, ys) st = (Inr (self_end, Xs_end, result), st_end)
    \<and> length new_Xs = k \<and> length new_ys = k
    \<and> rows (heap st ! Xs) = rows (heap st0 ! X_init) @ new_Xs
    \<and> rows (heap st ! ys) = rows (heap st0 ! y_init) @ new_ys
    \<and> length (rows (heap st ! Xs)) = length (rows (heap st ! ys))
    \<and> length rest_Xs = iters - k \<and> length rest_ys = iters - k
    \<and> rows (heap st_end ! Xs_end) = rows (heap st ! Xs) @ rest_Xs
    \<and> rows (heap st_end ! result) = rows (heap st ! ys) @ rest_ys
    \<and> length (heap st0) \<le> Xs \<and> length (heap st0) \<le> ys
    \<and> take (length (heap st0)) (heap st) = heap st0
    \<and> take (length (heap st)) (heap st_end) = heap st"
proof -
  from assms(2,3,5,6) obtain self Xs ys st self_end Xs_end st1 where
    entry: "loop_entry X_init y_init sampler_name st0
       = (Inr (Optimizer_init sampler_name, length (heap st0), Suc (length (heap st0))), st1)" and
    st1: "heap st1 = heap st0 @ [heap st0 ! X_init, heap st0 ! y_init]" and
    pre: "iterations lib func dir k
        (Optimizer_init sampler_name, length (heap st0), Suc (length (heap st0))) st1
       = (Inr (self, Xs, ys), st)" and
    a: "bind_io (loop_entry X_init y_init sampler_name) (iterations lib func dir k) st0
       = (Inr (self, Xs, ys), st)" and
    b: "iterations lib func dir (iters - k) (self, Xs, ys) st = (Inr (self_end, Xs_end, result), st_end)" and
    vX: "Xs < length (heap st)" and vy: "ys < length (heap st)" and
    fX: "length (heap st0) \<le> Xs" and fy: "length (heap st0) \<le> ys"
    by (rule run_optimization_split)
  have "Xs < length (heap st) \<and> ys < length (heap st)
    \<and> ncols (heap st ! ys) = ncols (heap st1 ! Suc (length (heap st0)))
    \<and> (\<exists>new_Xs new_ys. length new_Xs = k \<and> length new_ys = k
          \<and> rows (heap st ! Xs) = rows (heap st1 ! length (heap st0)) @ new_Xs
          \<and> rows (heap st ! ys) = rows (heap st1 ! Suc (length (heap st0))) @ new_ys)"
    by (rule iterations_grow [OF assms(1) _ _ pre]) (simp_all add: st1)
  then obtain new_Xs new_ys where
    n1: "length new_Xs = k" and n2: "length new_ys = k" and
    n3: "rows (heap st ! Xs) = rows (heap st0 ! X_init) @ new_Xs" and
    n4: "rows (heap st ! ys) = rows (heap st0 ! y_init) @ new_ys"
    by (auto simp: st1 nth_append)
  have n5: "length (rows (heap st ! Xs)) = length (rows (heap st ! ys))"
    using assms(4) n1 n2 by (simp add: n3 n4)
  from iterations_grow [OF assms(1) vX vy b] obtain rest_Xs rest_ys where
    r1: "length rest_Xs = iters - k" and r2: "length rest_ys = iters - k" and
    r3: "rows (heap st_end ! Xs_end) = rows (heap st ! Xs) @ rest_Xs" and
    r4: "rows (heap st_end ! result) = rows (heap st ! ys) @ rest_ys"
    by blast
  have "extends st0 st1" using grows_loop_entry entry by (rule growsD)
  moreover have "extends st1 st" using grows_iterations pre by (rule growsD)
  ultimately have "extends st0 st" by (rule extends_trans)
  then have t1: "take (length (heap st0)) (heap st) = heap st0" by (rule extends_take)
  have "extends st st_end" using grows_iterations b by (rule growsD)
  then have t2: "take (length (heap st)) (heap st_end) = heap st" by (rule extends_take)
  show ?thesis
    using a b n1 n2 n3 n4 n5 r1 r2 r3 r4 fX fy t1 t2 by (intro exI conjI)
qed

theorem observations_grow_by_concatenation_witness:
  "target_function_interface demo_function
   \<and> length (rows (heap demo_state ! 0)) = length (rows (heap demo_state ! 1))
   \<and> fst (run_optimization demo_optuna demo_function ''minimize'' 0 1 TPE 2 demo_state) = Inr 11
   \<and> (\<exists>self Xs ys st self_end Xs_end new_Xs new_ys rest_Xs rest_ys.
        bind_io (loop_entry 0 1 TPE) (iterations demo_optuna demo_function ''minimize'' 1) demo_state
          = (Inr (self, Xs, ys), st)
      \<and> iterations demo_optuna demo_function ''minimize'' (2 - 1) (self, Xs, ys) st
          = (Inr (self_end, Xs_end, 11),
             snd (run_optimization demo_optuna demo_function ''minimize'' 0 1 TPE 2 demo_state))
      \<and> length new_Xs = 1 \<and> length new_ys = 1
      \<and> rows (heap st ! Xs) = rows (heap demo_state ! 0) @ new_Xs
      \<and> rows (heap st ! ys) = rows (heap demo_state ! 1) @ new_ys
      \<and> length (rows (heap st ! Xs)) = length (rows (heap st ! ys))
      \<and> length rest_Xs = 2 - 1 \<and> length rest_ys = 2 - 1
      \<and> rows (heap (snd (run_optimization demo_optuna demo_function ''minimize'' 0 1 TPE 2 demo_state))
                ! Xs_end) = rows (heap st ! Xs) @ rest_Xs
      \<and> rows (heap (snd (run_optimization demo_optuna demo_function ''minimize'' 0 1 TPE 2 demo_state))
                ! 11) = rows (heap st ! ys) @ rest_ys
      \<and> length (heap demo_state) \<le> Xs \<and> length (heap demo_state) \<le> ys
      \<and> take (length (heap demo_state)) (heap st) = heap demo_state
      \<and> take (length (heap st))
           (heap (snd (run_optimization demo_optuna demo_function ''minimize'' 0 1 TPE 2 demo_state)))
          = heap st)"
proof -
  let ?run = "run_optimization demo_optuna demo_function ''minimize'' 0 1 TPE 2 demo_state"
  have eq: "length (rows (heap demo_state ! 0)) = length (rows (heap demo_state ! 1))"
    by (simp add: demo_state_def demo_X_def demo_y_def)
  have v: "0 < length (heap demo_state)" "1 < length (heap demo_state)"
    by (simp_all add: demo_state_def)
  have run: "fst ?run = Inr 11"
    by code_simp
  then have completed: "?run = (Inr 11, snd ?run)"
    by (simp add: prod_eq_iff)
  have k: "(1::nat) \<le> 2" by simp
  show ?thesis
    using demo_function_interface eq run
      observations_grow_by_concatenation [OF demo_function_interface v eq completed k]
    by (intro conjI)
qed

section \<open>run_optimization\<close>

lemma run_optimization_fresh:
  assumes "X_init < length (heap st)" and "y_init < length (heap st)"
    and "run_optimization lib func dir X_init y_init name iters st = (Inr result, st')"
  shows "length (heap st) \<le> result"
proof -
  from assms(3) obtain v0 st1 where
    entry: "loop_entry X_init y_init name st = (Inr v0, st1)" and
    body: "bind_io (iterations lib func dir iters v0) (\<lambda>(self, Xs, ys). return_io ys) st1
       = (Inr result, st')"
    unfolding run_optimization_def by (rule bind_io_InrE)
  have v0: "v0 = (Optimizer_init name, length (heap st), Suc (length (heap st)))"
    and st1: "heap st1 = heap st @ [heap st ! X_init, heap st ! y_init]"
    using entry by (simp_all add: loop_entry_eq [OF assms(2)])
  from body obtain v_end st2 where
    loop: "iterations lib func dir iters v0 st1 = (Inr v_end, st2)" and
    ret: "(case v_end of (self, Xs, ys) \<Rightarrow> return_io ys) st2 = (Inr result, st')"
    by (rule bind_io_InrE)
  obtain self' Xs' where v_end: "v_end = (self', Xs', result)"
    using ret by (cases v_end) auto
  show ?thesis
  proof (cases iters)
    case 0
    then show ?thesis using loop v0 v_end by simp
  next
    case (Suc m)
    have "iterations lib func dir (Suc m) v0 st1 = (Inr v_end, st2)"
      using loop Suc by simp
    then obtain v st3 where
      m: "iterations lib func dir m v0 st1 = (Inr v, st3)" and
      last: "iteration lib func dir v st3 = (Inr v_end, st2)"
      unfolding iterations_Suc_end by (rule bind_io_InrE)
    obtain self3 Xs3 ys3 where v: "v = (self3, Xs3, ys3)" by (cases v)
    have valid: "Xs3 < length (heap st3) \<and> ys3 < length (heap st3) \<and>
       sampler self3 = sampler (Optimizer_init name)"
      by (rule iterations_Inr [OF m [unfolded v0 v]]) (simp_all add: st1)
    have vX: "Xs3 < length (heap st3)" and vy: "ys3 < length (heap st3)"
      using valid by simp_all
    from last have "iteration lib func dir (self3, Xs3, ys3) st3 = (Inr v_end, st2)"
      by (simp add: v)
    from this vX vy obtain s row y where
      "sampler self3 = Some s" and
      "v_end = (self3\<lparr>study := Some (length (hist st3))\<rparr>, length (heap st3) + 2, length (heap st3) + 3)"
      by (rule iteration_Inr)
    then have "result = length (heap st3) + 3" using v_end by simp
    moreover have "extends st st1" using grows_loop_entry entry by (rule growsD)
    moreover have "extends st1 st3" using grows_iterations m by (rule growsD)
    ultimately show ?thesis
      using extends_length [of st st1] extends_length [of st1 st3] by simp
  qed
qed

lemma run_optimization_Inr:
  assumes "target_function_interface func"
    and "X_init < length (heap st)" and "y_init < length (heap st)"
    and "run_optimization lib func dir X_init y_init name iters st = (Inr result, st')"
  shows "result < length (heap st') \<and> length (heap st) \<le> result
    \<and> ncols (heap st' ! result) = ncols (heap st ! y_init)
    \<and> (\<exists>new_ys. length new_ys = iters
          \<and> rows (heap st' ! result) = rows (heap st ! y_init) @ new_ys)"
proof -
  from assms(4) obtain v0 st1 where
    entry: "loop_entry X_init y_init name st = (Inr v0, st1)" and
    body: "bind_io (iterations lib func dir iters v0) (\<lambda>(self, Xs, ys). return_io ys) st1
       = (Inr result, st')"
    unfolding run_optimization_def by (rule bind_io_InrE)
  have v0: "v0 = (Optimizer_init name, length (heap st), Suc (length (heap st)))"
    and st1: "heap st1 = heap st @ [heap st ! X_init, heap st ! y_init]"
    using entry by (simp_all add: loop_entry_eq [OF assms(3)])
  from body obtain v_end st2 where
    loop: "iterations lib func dir iters v0 st1 = (Inr v_end, st2)" and
    ret: "(case v_end of (self, Xs, ys) \<Rightarrow> return_io ys) st2 = (Inr result, st')"
    by (rule bind_io_InrE)
  obtain self' Xs' where v_end: "v_end = (self', Xs', result)" and st2: "st2 = st'"
    using ret by (cases v_end) auto
  have "Xs' < length (heap st') \<and> result < length (heap st')
    \<and> ncols (heap st' ! result) = ncols (heap st1 ! Suc (length (heap st)))
    \<and> (\<exists>new_Xs new_ys. length new_Xs = iters \<and> length new_ys = iters
          \<and> rows (heap st' ! Xs') = rows (heap st1 ! length (heap st)) @ new_Xs
          \<and> rows (heap st' ! result) = rows (heap st1 ! Suc (length (heap st))) @ new_ys)"
    by (rule iterations_grow [OF assms(1) _ _ loop [unfolded v0 v_end st2]]) (simp_all add: st1)
  moreover have "heap st1 ! Suc (length (heap st)) = heap st ! y_init"
    by (simp add: st1 nth_append)
  moreover have "length (heap st) \<le> result"
    using assms(2-4) by (rule run_optimization_fresh)
  ultimately show ?thesis by auto
qed

section \<open>A trial of main\<close>

lemma initial_batch_loop_Inr:
  assumes "target_function_interface f"
    and "X_init < length (heap st)" and "y_init < length (heap st)"
    and "initial_batch_loop f n (X_init, y_init) st = (Inr (X', y'), st')"
  shows "X' < length (heap st') \<and> y' < length (heap st')
    \<and> ncols (heap st' ! y') = ncols (heap st ! y_init)
    \<and> (\<exists>new_X new_y. length new_X = n \<and> length new_y = n
          \<and> rows (heap st' ! X') = rows (heap st ! X_init) @ new_X
          \<and> rows (heap st' ! y') = rows (heap st ! y_init) @ new_y
          \<and> list_all2 (\<lambda>X_row y_row. \<exists>X y. rows X = [X_row] \<and> func_f f X = Inr y \<and> rows y = [y_row])
               new_X new_y)"
  using assms(2-4)
proof (induction n arbitrary: X_init y_init st)
  case 0
  then show ?case by simp
next
  case (Suc n)
  let ?R = "\<lambda>X_row y_row. \<exists>X y. rows X = [X_row] \<and> func_f f X = Inr y \<and> rows y = [y_row]"
  from Suc.prems(3) obtain X sta y stb X1 stc y1 st1 where
    rx: "call_random_x f st = (Inr X, sta)" and
    cf: "call_f f X sta = (Inr y, stb)" and
    c1: "np_concatenate X_init X stb = (Inr X1, stc)" and
    c2: "np_concatenate y_init y stc = (Inr y1, st1)" and
    rest: "initial_batch_loop f n (X1, y1) st1 = (Inr (X', y'), st')"
    by (auto simp: bind_io_Inr simp del: call_random_x_Inr call_f_Inr np_concatenate_Inr)
  from rx obtain x where x: "func_random_x f (hist st) = Inr x" and X: "X = length (heap st)"
    and sta: "heap sta = heap st @ [x]"
    by auto
  from cf obtain fy where fy: "func_f f (heap sta ! X) = Inr fy" and y: "y = length (heap sta)"
    and stb: "heap stb = heap sta @ [fy]"
    by auto
  have xa: "heap sta ! X = x" by (simp add: sta X)
  have "length (rows x) = 1"
    using assms(1) x by (auto simp: target_function_interface_def)
  then obtain X_row where X_row: "rows x = [X_row]" by (cases "rows x") simp_all
  have "length (rows fy) = 1"
    using assms(1) fy xa X_row by (auto simp: target_function_interface_def)
  then obtain y_row where y_row: "rows fy = [y_row]" by (cases "rows fy") simp_all
  have R: "?R X_row y_row" using fy xa X_row y_row by blast
  have heapb: "heap stb = heap st @ [x, fy]" by (simp add: stb sta)
  from c1 have X1: "X1 = length (heap stb)" and
    stc: "heap stc = heap stb @
       [\<lparr>ncols = ncols (heap stb ! X_init), rows = rows (heap stb ! X_init) @ rows (heap stb ! X)\<rparr>]"
    by simp_all
  have Xb: "heap stb ! X_init = heap st ! X_init" "heap stb ! X = x"
    using Suc.prems(1) by (simp_all add: heapb nth_append X)
  have heapc: "heap stc = heap st @ [x, fy,
       \<lparr>ncols = ncols (heap st ! X_init), rows = rows (heap st ! X_init) @ [X_row]\<rparr>]"
    unfolding stc Xb by (simp add: heapb X_row)
  from c2 have y1: "y1 = length (heap stc)" and
    st1: "heap st1 = heap stc @
       [\<lparr>ncols = ncols (heap stc ! y_init), rows = rows (heap stc ! y_init) @ rows (heap stc ! y)\<rparr>]"
    by simp_all
  have yc: "heap stc ! y_init = heap st ! y_init" "heap stc ! y = fy"
    using Suc.prems(2) by (simp_all add: heapc nth_append y sta)
  have heap1: "heap st1 = heap st @ [x, fy,
       \<lparr>ncols = ncols (heap st ! X_init), rows = rows (heap st ! X_init) @ [X_row]\<rparr>,
       \<lparr>ncols = ncols (heap st ! y_init), rows = rows (heap st ! y_init) @ [y_row]\<rparr>]"
    unfolding st1 yc by (simp add: heapc y_row)
  have X1': "X1 = length (heap st) + 2" and y1': "y1 = length (heap st) + 3"
    by (simp_all add: X1 y1 heapb heapc)
  have e1: "heap st1 ! X1 = \<lparr>ncols = ncols (heap st ! X_init), rows = rows (heap st ! X_init) @ [X_row]\<rparr>"
    and e2: "heap st1 ! y1 = \<lparr>ncols = ncols (heap st ! y_init), rows = rows (heap st ! y_init) @ [y_row]\<rparr>"
    by (simp_all add: heap1 X1' y1' nth_append)
  have IH: "X' < length (heap st') \<and> y' < length (heap st')
    \<and> ncols (heap st' ! y') = ncols (heap st1 ! y1)
    \<and> (\<exists>new_X new_y. length new_X = n \<and> length new_y = n
          \<and> rows (heap st' ! X') = rows (heap st1 ! X1) @ new_X
          \<and> rows (heap st' ! y') = rows (heap st1 ! y1) @ new_y
          \<and> list_all2 ?R new_X new_y)"
    by (rule Suc.IH [OF _ _ rest]) (simp_all add: heap1 X1' y1')
  then obtain new_X new_y where
    new: "length new_X = n" "length new_y = n"
      "rows (heap st' ! X') = (rows (heap st ! X_init) @ [X_row]) @ new_X"
      "rows (heap st' ! y') = (rows (heap st ! y_init) @ [y_row]) @ new_y"
      "list_all2 ?R new_X new_y"
    unfolding e1 e2 by auto
  have "length (X_row # new_X) = Suc n \<and> length (y_row # new_y) = Suc n
      \<and> rows (heap st' ! X') = rows (heap st ! X_init) @ (X_row # new_X)
      \<and> rows (heap st' ! y') = rows (heap st ! y_init) @ (y_row # new_y)
      \<and> list_all2 ?R (X_row # new_X) (y_row # new_y)"
    using new R by simp
  then have "\<exists>new_X new_y. length new_X = Suc n \<and> length new_y = Suc n
          \<and> rows (heap st' ! X') = rows (heap st ! X_init) @ new_X
          \<and> rows (heap st' ! y') = rows (heap st ! y_init) @ new_y
          \<and> list_all2 ?R new_X new_y"
    by (intro exI)
  moreover have "X' < length (heap st')" "y' < length (heap st')"
    "ncols (heap st' ! y') = ncols (heap st ! y_init)"
    using IH e2 by simp_all
  ultimately show ?case by (intro conjI)
qed

lemma initial_batch_Inr:
  assumes "target_function_interface f"
    and "initial_batch f init_num st = (Inr (X_init, y_init), st')"
  shows "X_init < length (heap st') \<and> y_init < length (heap st')
    \<and> ncols (heap st' ! y_init) = 1
    \<and> length (rows (heap st' ! X_init)) = Suc (init_num - 1)
    \<and> length (rows (heap st' ! y_init)) = Suc (init_num - 1)
    \<and> objective_of f (heap st' ! X_init) (heap st' ! y_init)"
proof -
  let ?R = "\<lambda>X_row y_row. \<exists>X y. rows X = [X_row] \<and> func_f f X = Inr y \<and> rows y = [y_row]"
  from assms(2) obtain X0 sta y0 stb where
    rx: "call_random_x f st = (Inr X0, sta)" and
    cf: "call_f f X0 sta = (Inr y0, stb)" and
    loop: "initial_batch_loop f (init_num - 1) (X0, y0) stb = (Inr (X_init, y_init), st')"
    unfolding initial_batch_def by (elim bind_io_InrE)
  from rx obtain x where x: "func_random_x f (hist st) = Inr x" and X0: "X0 = length (heap st)"
    and sta: "heap sta = heap st @ [x]"
    by auto
  from cf obtain fy where fy: "func_f f (heap sta ! X0) = Inr fy" and y0: "y0 = length (heap sta)"
    and stb: "heap stb = heap sta @ [fy]"
    by auto
  have xa: "heap sta ! X0 = x" by (simp add: sta X0)
  have "length (rows x) = 1"
    using assms(1) x by (auto simp: target_function_interface_def)
  then obtain X_row where X_row: "rows x = [X_row]" by (cases "rows x") simp_all
  have "length (rows fy) = 1" and cy: "ncols fy = 1"
    using assms(1) fy xa X_row by (auto simp: target_function_interface_def)
  then obtain y_row where y_row: "rows fy = [y_row]" by (cases "rows fy") simp_all
  have R: "?R X_row y_row" using fy xa X_row y_row by blast
  have eb: "heap stb ! X0 = x" "heap stb ! y0 = fy"
    by (simp_all add: stb sta X0 y0 nth_append)
  have "X_init < length (heap st') \<and> y_init < length (heap st')
    \<and> ncols (heap st' ! y_init) = ncols (heap stb ! y0)
    \<and> (\<exists>new_X new_y. length new_X = init_num - 1 \<and> length new_y = init_num - 1
          \<and> rows (heap st' ! X_init) = rows (heap stb ! X0) @ new_X
          \<and> rows (heap st' ! y_init) = rows (heap stb ! y0) @ new_y
          \<and> list_all2 ?R new_X new_y)"
    by (rule initial_batch_loop_Inr [OF assms(1) _ _ loop]) (simp_all add: stb sta X0 y0)
  then obtain new_X new_y where
    v: "X_init < length (heap st')" "y_init < length (heap st')" "ncols (heap st' ! y_init) = 1" and
    new: "length new_X = init_num - 1" "length new_y = init_num - 1"
      "rows (heap st' ! X_init) = X_row # new_X"
      "rows (heap st' ! y_init) = y_row # new_y"
      "list_all2 ?R new_X new_y"
    unfolding eb by (auto simp: X_row y_row cy)
  have "objective_of f (heap st' ! X_init) (heap st' ! y_init)"
    unfolding objective_of_def new(3,4) using R new(5) by simp
  then show ?thesis using v new by simp
qed

lemma random_search_loop_Inr:
  assumes "target_function_interface f"
    and "ys_random < length (heap st)"
    and "random_search_loop f n ys_random st = (Inr r, st')"
  shows "r < length (heap st') \<and> ncols (heap st' ! r) = ncols (heap st ! ys_random)
    \<and> (\<exists>new_ys. length new_ys = n \<and> rows (heap st' ! r) = rows (heap st ! ys_random) @ new_ys)"
  using assms(2,3)
proof (induction n arbitrary: ys_random st)
  case 0
  then show ?case by simp
next
  case (Suc n)
  from Suc.prems(2) obtain X sta y stb r1 st1 where
    rx: "call_random_x f st = (Inr X, sta)" and
    cf: "call_f f X sta = (Inr y, stb)" and
    c: "np_concatenate ys_random y stb = (Inr r1, st1)" and
    rest: "random_search_loop f n r1 st1 = (Inr r, st')"
    by (auto simp: bind_io_Inr simp del: call_random_x_Inr call_f_Inr np_concatenate_Inr)
  from rx obtain x where x: "func_random_x f (hist st) = Inr x" and X: "X = length (heap st)"
    and sta: "heap sta = heap st @ [x]"
    by auto
  from cf obtain fy where fy: "func_f f (heap sta ! X) = Inr fy" and y: "y = length (heap sta)"
    and stb: "heap stb = heap sta @ [fy]"
    by auto
  have xa: "heap sta ! X = x" by (simp add: sta X)
  have "length (rows x) = 1"
    using assms(1) x by (auto simp: target_function_interface_def)
  then have "length (rows fy) = 1"
    using assms(1) fy xa by (auto simp: target_function_interface_def)
  then obtain y_row where y_row: "rows fy = [y_row]" by (cases "rows fy") simp_all
  have heapb: "heap stb = heap st @ [x, fy]" by (simp add: stb sta)
  from c have r1: "r1 = length (heap stb)" and
    st1: "heap st1 = heap stb @
       [\<lparr>ncols = ncols (heap stb ! ys_random), rows = rows (heap stb ! ys_random) @ rows (heap stb ! y)\<rparr>]"
    by simp_all
  have yb: "heap stb ! ys_random = heap st ! ys_random" "heap stb ! y = fy"
    using Suc.prems(1) by (simp_all add: heapb nth_append y sta)
  have e: "heap st1 ! r1 =
      \<lparr>ncols = ncols (heap st ! ys_random), rows = rows (heap st ! ys_random) @ [y_row]\<rparr>"
    unfolding st1 yb by (simp add: r1 y_row)
  have "r1 < length (heap st1)" by (simp add: st1 r1)
  from Suc.IH [OF this rest] obtain new_ys where
    "r < length (heap st')" "ncols (heap st' ! r) = ncols (heap st ! ys_random)"
    "length new_ys = n" "rows (heap st' ! r) = (rows (heap st ! ys_random) @ [y_row]) @ new_ys"
    unfolding e by auto
  then have "r < length (heap st') \<and> ncols (heap st' ! r) = ncols (heap st ! ys_random)
    \<and> length (y_row # new_ys) = Suc n
    \<and> rows (heap st' ! r) = rows (heap st ! ys_random) @ (y_row # new_ys)"
    by simp
  then show ?case by blast
qed

lemma set_update_subset: "set (AList.update k v al) \<subseteq> insert (k, v) (set al)"
  by (induction al) auto

lemma methods_loop_Inr:
  assumes "target_function_interface f"
    and "X_init < length (heap st)" and "y_init < length (heap st)"
    and "heap st ! y_init = y0"
    and "methods_loop lib f dir X_init y_init n ms serch_fs st = (Inr serch_fs', st')"
    and "\<forall>(name, r) \<in> set serch_fs. r < length (heap st) \<and> extends_batch y0 n (heap st ! r)"
  shows "\<forall>(name, r) \<in> set serch_fs'. r < length (heap st') \<and> extends_batch y0 n (heap st' ! r)"
  using assms(2-6)
proof (induction ms arbitrary: serch_fs st)
  case Nil
  then show ?case by simp
next
  case (Cons m ms)
  from Cons.prems(4) obtain ys st1 where
    run: "run_optimization lib f dir X_init y_init m n st = (Inr ys, st1)" and
    rest: "methods_loop lib f dir X_init y_init n ms (AList.update m ys serch_fs) st1
       = (Inr serch_fs', st')"
    by (auto simp: bind_io_Inr split: if_splits)
  have ext: "extends st st1"
    using grows_run_optimization run by (rule growsD)
  have len: "length (heap st) \<le> length (heap st1)"
    using ext by (rule extends_length)
  from run_optimization_Inr [OF assms(1) Cons.prems(1,2) run]
  have ys: "ys < length (heap st1)" "extends_batch y0 n (heap st1 ! ys)"
    by (auto simp: extends_batch_def Cons.prems(3))
  have old: "r < length (heap st1) \<and> extends_batch y0 n (heap st1 ! r)"
    if "(name, r) \<in> set serch_fs" for name r
  proof -
    have "r < length (heap st)" "extends_batch y0 n (heap st ! r)"
      using Cons.prems(5) that by auto
    then show ?thesis using extends_nth [OF ext] len by simp
  qed
  have inv: "\<forall>(name, r) \<in> set (AList.update m ys serch_fs).
      r < length (heap st1) \<and> extends_batch y0 n (heap st1 ! r)"
  proof (clarify)
    fix name r
    assume "(name, r) \<in> set (AList.update m ys serch_fs)"
    then have "(name, r) = (m, ys) \<or> (name, r) \<in> set serch_fs"
      using set_update_subset by fastforce
    then show "r < length (heap st1) \<and> extends_batch y0 n (heap st1 ! r)"
      using ys old by auto
  qed
  show ?case
  proof (rule Cons.IH [OF _ _ _ rest inv])
    show "X_init < length (heap st1)" "y_init < length (heap st1)"
      using Cons.prems(1,2) len by simp_all
    show "heap st1 ! y_init = y0"
      using extends_nth [OF ext Cons.prems(2)] Cons.prems(3) by simp
  qed
qed

lemma squeeze_column:
  "ncols a = 1 \<Longrightarrow> length (rows a) \<noteq> 1 \<Longrightarrow> squeeze a = Vector (map hd (rows a))"
  by (simp add: squeeze_def)

lemma DataFrame_columns:
  assumes "\<forall>(name, r) \<in> set serch_fs. ncols (heap st ! r) = 1 \<and> length (rows (heap st ! r)) \<noteq> 1"
  shows "DataFrame serch_fs st = (Inr (map (\<lambda>(name, r). (name, squeeze (heap st ! r))) serch_fs), st)"
proof -
  have "\<not> is_Scalar (squeeze (heap st ! r))" if "(name, r) \<in> set serch_fs" for name r
    using assms that by (auto simp: squeeze_column)
  then have "\<not> list_ex (\<lambda>(name, column). is_Scalar column)
      (map (\<lambda>(name, r). (name, squeeze (heap st ! r))) serch_fs)"
    by (auto simp: list_ex_iff)
  then show ?thesis by (simp add: DataFrame_def Let_def)
qed

lemma DataFrame_Inr:
  "DataFrame serch_fs st = (Inr table, st') \<longleftrightarrow>
     table = map (\<lambda>(name, r). (name, squeeze (heap st ! r))) serch_fs \<and> st' = st \<and>
     \<not> list_ex (\<lambda>(name, column). is_Scalar column) table"
  by (auto simp: DataFrame_def Let_def)

lemma serch_fs_Inr:
  assumes "target_function_interface f"
    and ib: "initial_batch f init_num st = (Inr (X_init, y_init), st1)"
    and cp: "np_copy y_init st1 = (Inr ys_random, st2)"
    and rs: "random_search_loop f serch_num ys_random st2 = (Inr ys_random', st3)"
    and ml: "methods_loop lib f dir X_init y_init serch_num methods [(''Random'', ys_random')] st3
           = (Inr serch_fs, st4)"
  shows "\<forall>(name, r) \<in> set serch_fs.
      r < length (heap st4) \<and> extends_batch (heap st1 ! y_init) serch_num (heap st4 ! r)"
proof -
  from initial_batch_Inr [OF assms(1) ib]
  have v1: "X_init < length (heap st1)" "y_init < length (heap st1)" by simp_all
  from cp have yr: "ys_random = length (heap st1)" and
    st2: "heap st2 = heap st1 @ [heap st1 ! y_init]"
    by simp_all
  have e2: "heap st2 ! ys_random = heap st1 ! y_init" by (simp add: st2 yr)
  have "ys_random < length (heap st2)" by (simp add: st2 yr)
  from random_search_loop_Inr [OF assms(1) this rs]
  have r3: "ys_random' < length (heap st3)"
    "extends_batch (heap st1 ! y_init) serch_num (heap st3 ! ys_random')"
    by (auto simp: extends_batch_def e2)
  have ext13: "extends st1 st3"
  proof (rule extends_trans)
    show "extends st1 st2" using grows_np_copy cp by (rule growsD)
    show "extends st2 st3" using grows_random_search_loop rs by (rule growsD)
  qed
  have v3: "X_init < length (heap st3)" "y_init < length (heap st3)"
    using v1 extends_length [OF ext13] by simp_all
  have y3: "heap st3 ! y_init = heap st1 ! y_init"
    using ext13 v1(2) by (rule extends_nth)
  show ?thesis
    by (rule methods_loop_Inr [OF assms(1) v3 y3 ml]) (simp add: r3)
qed

lemma trial_Inr:
  assumes "target_function_interface f"
    and "trial lib f dir init_num serch_num methods st = (Inr table, st')"
  obtains X_init y_init st1 serch_fs where
    "initial_batch f init_num st = (Inr (X_init, y_init), st1)"
    "table = map (\<lambda>(name, r). (name, squeeze (heap st' ! r))) serch_fs"
    "\<forall>(name, r) \<in> set serch_fs. extends_batch (heap st1 ! y_init) serch_num (heap st' ! r)"
proof -
  from assms(2) obtain X_init y_init st1 ys_random st2 ys_random' st3 serch_fs st4 where
    ib: "initial_batch f init_num st = (Inr (X_init, y_init), st1)" and
    cp: "np_copy y_init st1 = (Inr ys_random, st2)" and
    rs: "random_search_loop f serch_num ys_random st2 = (Inr ys_random', st3)" and
    ml: "methods_loop lib f dir X_init y_init serch_num methods [(''Random'', ys_random')] st3
           = (Inr serch_fs, st4)" and
    df: "DataFrame serch_fs st4 = (Inr table, st')"
    unfolding trial_def
    by (auto simp: bind_io_Inr simp del: np_copy_eq)
  have "\<forall>(name, r) \<in> set serch_fs.
      r < length (heap st4) \<and> extends_batch (heap st1 ! y_init) serch_num (heap st4 ! r)"
    using assms(1) ib cp rs ml by (rule serch_fs_Inr)
  moreover from df have "table = map (\<lambda>(name, r). (name, squeeze (heap st' ! r))) serch_fs"
    and "st' = st4"
    by (simp_all add: DataFrame_Inr)
  ultimately show ?thesis using ib that by blast
qed

text \<open>
  Claim C2: in every completed trial with at least one initial point (and two rows in all,
  so that \<^verbatim>\<open>squeeze\<close> leaves a vector), every column of the result table, the random-search
  column and each strategy's, is a vector of length \<open>init_num + serch_num\<close>. The
  configuration of \<^verbatim>\<open>main\<close> is \<open>10\<close> and \<open>100\<close>: \<open>110\<close> rows.
\<close>

theorem result_columns_length:
  assumes "target_function_interface f"
    and "1 \<le> init_num" and "2 \<le> init_num + serch_num"
    and "trial lib f dir init_num serch_num methods st = (Inr table, st')"
  shows "\<forall>(name, column) \<in> set table.
           \<exists>values. column = Vector values \<and> length values = init_num + serch_num"
proof (clarify)
  fix name column
  assume in_table: "(name, column) \<in> set table"
  from assms(1,4) obtain X_init y_init st1 serch_fs where
    ib: "initial_batch f init_num st = (Inr (X_init, y_init), st1)" and
    table: "table = map (\<lambda>(name, r). (name, squeeze (heap st' ! r))) serch_fs" and
    cols: "\<forall>(name, r) \<in> set serch_fs. extends_batch (heap st1 ! y_init) serch_num (heap st' ! r)"
    by (rule trial_Inr)
  from initial_batch_Inr [OF assms(1) ib]
  have y0: "ncols (heap st1 ! y_init) = 1" "length (rows (heap st1 ! y_init)) = init_num"
    using assms(2) by simp_all
  from in_table obtain r where r: "(name, r) \<in> set serch_fs" and
    column: "column = squeeze (heap st' ! r)"
    unfolding table by auto
  from cols r have "extends_batch (heap st1 ! y_init) serch_num (heap st' ! r)" by auto
  then have "ncols (heap st' ! r) = 1" "length (rows (heap st' ! r)) = init_num + serch_num"
    using y0 by (auto simp: extends_batch_def)
  then have "column = Vector (map hd (rows (heap st' ! r)))
      \<and> length (map hd (rows (heap st' ! r))) = init_num + serch_num"
    using assms(3) by (simp add: column squeeze_column)
  then show "\<exists>values. column = Vector values \<and> length values = init_num + serch_num"
    by blast
qed

theorem result_columns_length_witness:
  "target_function_interface demo_function
   \<and> fst (trial demo_optuna demo_function ''minimize'' 2 1 [TPE, LCB] start)
       = Inr [(''Random'', Vector [Fin 0, Fin 1, Fin 2]),
              (''TPE'', Vector [Fin 0, Fin 1, Fin (- 5)]),
              (''LCB'', Vector [Fin 0, Fin 1, Fin (- 5)])]
   \<and> list_all (\<lambda>(name, column). \<exists>values. column = Vector values \<and> length values = 2 + 1)
        [(''Random'', Vector [Fin 0, Fin 1, Fin 2]),
         (''TPE'', Vector [Fin 0, Fin 1, Fin (- 5)]),
         (''LCB'', Vector [Fin 0, Fin 1, Fin (- 5)])]"
proof -
  let ?table = "[(''Random'', Vector [Fin 0, Fin 1, Fin 2]),
                 (''TPE'', Vector [Fin 0, Fin 1, Fin (- 5)]),
                 (''LCB'', Vector [Fin 0, Fin 1, Fin (- 5)])]"
  have run: "fst (trial demo_optuna demo_function ''minimize'' 2 1 [TPE, LCB] start) = Inr ?table"
    by code_simp
  then obtain st' where st':
    "trial demo_optuna demo_function ''minimize'' 2 1 [TPE, LCB] start = (Inr ?table, st')"
    by (cases "trial demo_optuna demo_function ''minimize'' 2 1 [TPE, LCB] start") simp
  have "\<forall>(name, column) \<in> set ?table. \<exists>values. column = Vector values \<and> length values = 2 + 1"
    by (rule result_columns_length [OF demo_function_interface _ _ st']) simp_all
  then have "list_all (\<lambda>(name, column). \<exists>values. column = Vector values \<and> length values = 2 + 1) ?table"
    unfolding list_all_iff .
  then show ?thesis using demo_function_interface run by blast
qed

text \<open>
  The same for the configuration written in \<^verbatim>\<open>main\<close>: every column of every completed
  trial has \<open>110\<close> rows.
\<close>

lemma trial_columns_main:
  assumes "target_function_interface f"
    and "trial lib f direction INIT_NUM SERCH_NUM use_methods st = (Inr table, st')"
    and "(name, column) \<in> set table"
  shows "\<exists>values. column = Vector values \<and> length values = 110"
proof -
  from assms(1,2) obtain X_init y_init st1 serch_fs where
    ib: "initial_batch f INIT_NUM st = (Inr (X_init, y_init), st1)" and
    table: "table = map (\<lambda>(name, r). (name, squeeze (heap st' ! r))) serch_fs" and
    cols: "\<forall>(name, r) \<in> set serch_fs. extends_batch (heap st1 ! y_init) SERCH_NUM (heap st' ! r)"
    by (rule trial_Inr)
  from initial_batch_Inr [OF assms(1) ib]
  have y0: "ncols (heap st1 ! y_init) = 1" "length (rows (heap st1 ! y_init)) = 10"
    by (simp_all add: INIT_NUM_def)
  from assms(3) obtain r where r: "(name, r) \<in> set serch_fs" and
    column: "column = squeeze (heap st' ! r)"
    unfolding table by auto
  from cols r have "extends_batch (heap st1 ! y_init) SERCH_NUM (heap st' ! r)" by auto
  then have "ncols (heap st' ! r) = 1" "length (rows (heap st' ! r)) = 110"
    using y0 by (auto simp: extends_batch_def SERCH_NUM_def)
  then have "column = Vector (map hd (rows (heap st' ! r)))
      \<and> length (map hd (rows (heap st' ! r))) = 110"
    by (simp add: column squeeze_column)
  then show ?thesis by blast
qed

lemma trials_columns:
  assumes "target_function_interface f"
    and "trials lib f n st = (Inr dfs, st')"
    and "table \<in> set dfs" and "(name, column) \<in> set table"
  shows "\<exists>values. column = Vector values \<and> length values = 110"
  using assms(2,3)
proof (induction n arbitrary: st dfs)
  case 0
  then show ?case by simp
next
  case (Suc n)
  from Suc.prems(1) obtain df st1 rest where
    t: "trial lib f direction INIT_NUM SERCH_NUM use_methods st = (Inr df, st1)" and
    ts: "trials lib f n st1 = (Inr rest, st')" and dfs: "dfs = df # rest"
    by (auto simp: bind_io_Inr)
  from Suc.prems(2) dfs have "table = df \<or> table \<in> set rest" by auto
  then show ?case
  proof
    assume "table = df"
    then show ?thesis using trial_columns_main [OF assms(1) t] assms(4) by simp
  next
    assume "table \<in> set rest"
    then show ?thesis using Suc.IH [OF ts] by simp
  qed
qed

lemma main_columns:
  assumes "target_function_interface f"
    and "main lib f st = (Inr dfs, st')"
    and "table \<in> set dfs" and "(name, column) \<in> set table"
  shows "\<exists>values. column = Vector values \<and> length values = 110"
  using assms trials_columns unfolding main_def by blast

text \<open>
  Claim C10: in every completed trial (under the conditions of C2), the first \<open>init_num\<close>
  entries of every column of the result table, the random-search column and each
  strategy's, are the same: they are the objective values \<^verbatim>\<open>y_init\<close> of the initial batch
  \<^verbatim>\<open>X_init\<close>, row by row, in the order the points were drawn.
\<close>

theorem result_columns_share_initial_batch:
  assumes "target_function_interface f"
    and "1 \<le> init_num" and "2 \<le> init_num + serch_num"
    and "trial lib f dir init_num serch_num methods st = (Inr table, st')"
  shows "\<exists>X_init y_init st1.
           initial_batch f init_num st = (Inr (X_init, y_init), st1)
         \<and> length (rows (heap st1 ! y_init)) = init_num
         \<and> objective_of f (heap st1 ! X_init) (heap st1 ! y_init)
         \<and> (\<forall>(name, column) \<in> set table.
               \<exists>values. column = Vector values
                 \<and> take init_num values = map hd (rows (heap st1 ! y_init)))"
proof -
  from assms(1,4) obtain X_init y_init st1 serch_fs where
    ib: "initial_batch f init_num st = (Inr (X_init, y_init), st1)" and
    table: "table = map (\<lambda>(name, r). (name, squeeze (heap st' ! r))) serch_fs" and
    cols: "\<forall>(name, r) \<in> set serch_fs. extends_batch (heap st1 ! y_init) serch_num (heap st' ! r)"
    by (rule trial_Inr)
  from initial_batch_Inr [OF assms(1) ib]
  have y0: "ncols (heap st1 ! y_init) = 1" "length (rows (heap st1 ! y_init)) = init_num"
    and obj: "objective_of f (heap st1 ! X_init) (heap st1 ! y_init)"
    using assms(2) by simp_all
  have "\<exists>values. column = Vector values \<and> take init_num values = map hd (rows (heap st1 ! y_init))"
    if in_table: "(name, column) \<in> set table" for name column
  proof -
    from in_table obtain r where r: "(name, r) \<in> set serch_fs" and
      column: "column = squeeze (heap st' ! r)"
      unfolding table by auto
    from cols r have "extends_batch (heap st1 ! y_init) serch_num (heap st' ! r)" by auto
    then obtain new_ys where
      c: "ncols (heap st' ! r) = 1" and l: "length new_ys = serch_num" and
      rw: "rows (heap st' ! r) = rows (heap st1 ! y_init) @ new_ys"
      using y0 by (auto simp: extends_batch_def)
    have "length (rows (heap st' ! r)) \<noteq> 1"
      using assms(3) y0(2) l by (simp add: rw)
    then have "column = Vector (map hd (rows (heap st' ! r)))"
      using c by (simp add: column squeeze_column)
    moreover have "take init_num (map hd (rows (heap st' ! r))) = map hd (rows (heap st1 ! y_init))"
      using y0(2) by (simp add: rw)
    ultimately show ?thesis by blast
  qed
  then have "\<forall>(name, column) \<in> set table.
      \<exists>values. column = Vector values \<and> take init_num values = map hd (rows (heap st1 ! y_init))"
    by blast
  with ib y0(2) obj show ?thesis by blast
qed

theorem result_columns_share_initial_batch_witness:
  "target_function_interface demo_function
   \<and> fst (trial demo_optuna demo_function ''minimize'' 2 1 [TPE, LCB] start)
       = Inr [(''Random'', Vector [Fin 0, Fin 1, Fin 2]),
              (''TPE'', Vector [Fin 0, Fin 1, Fin (- 5)]),
              (''LCB'', Vector [Fin 0, Fin 1, Fin (- 5)])]
   \<and> (\<exists>X_init y_init st1.
         initial_batch demo_function 2 start = (Inr (X_init, y_init), st1)
       \<and> length (rows (heap st1 ! y_init)) = 2
       \<and> objective_of demo_function (heap st1 ! X_init) (heap st1 ! y_init)
       \<and> list_all (\<lambda>(name, column). \<exists>values. column = Vector values
                       \<and> take 2 values = map hd (rows (heap st1 ! y_init)))
            [(''Random'', Vector [Fin 0, Fin 1, Fin 2]),
             (''TPE'', Vector [Fin 0, Fin 1, Fin (- 5)]),
             (''LCB'', Vector [Fin 0, Fin 1, Fin (- 5)])])"
proof -
  let ?table = "[(''Random'', Vector [Fin 0, Fin 1, Fin 2]),
                 (''TPE'', Vector [Fin 0, Fin 1, Fin (- 5)]),
                 (''LCB'', Vector [Fin 0, Fin 1, Fin (- 5)])]"
  have run: "fst (trial demo_optuna demo_function ''minimize'' 2 1 [TPE, LCB] start) = Inr ?table"
    by code_simp
  then obtain st' where st':
    "trial demo_optuna demo_function ''minimize'' 2 1 [TPE, LCB] start = (Inr ?table, st')"
    by (cases "trial demo_optuna demo_function ''minimize'' 2 1 [TPE, LCB] start") simp
  have "\<exists>X_init y_init st1.
           initial_batch demo_function 2 start = (Inr (X_init, y_init), st1)
         \<and> length (rows (heap st1 ! y_init)) = 2
         \<and> objective_of demo_function (heap st1 ! X_init) (heap st1 ! y_init)
         \<and> (\<forall>(name, column) \<in> set ?table.
               \<exists>values. column = Vector values
                 \<and> take 2 values = map hd (rows (heap st1 ! y_init)))"
    by (rule result_columns_share_initial_batch [OF demo_function_interface _ _ st']) simp_all
  then have "\<exists>X_init y_init st1.
         initial_batch demo_function 2 start = (Inr (X_init, y_init), st1)
       \<and> length (rows (heap st1 ! y_init)) = 2
       \<and> objective_of demo_function (heap st1 ! X_init) (heap st1 ! y_init)
       \<and> list_all (\<lambda>(name, column). \<exists>values. column = Vector values
                       \<and> take 2 values = map hd (rows (heap st1 ! y_init))) ?table"
    unfolding list_all_iff .
  then show ?thesis using demo_function_interface run by blast
qed

section \<open>The initial batch is shared, never written\<close>

text \<open>
  Whether it completes or raises, a run of \<^verbatim>\<open>run_optimization\<close> leaves every array that
  existed as it was, the initial batch it is given among them.
\<close>

lemma run_optimization_never_writes:
  assumes "run_optimization lib func dir X_init y_init name iters st = (r, st')"
  shows "take (length (heap st)) (heap st') = heap st"
proof -
  have "extends st st'" using grows_run_optimization assms by (rule growsD)
  then show ?thesis by (rule extends_take)
qed

lemma methods_loop_append:
  "methods_loop lib f dir X_init y_init n (ms @ ms') serch_fs =
     bind_io (methods_loop lib f dir X_init y_init n ms serch_fs)
       (methods_loop lib f dir X_init y_init n ms')"
proof (induction ms arbitrary: serch_fs)
  case Nil
  show ?case by simp
next
  case (Cons m ms)
  show ?case
  proof (cases "m \<in> set SamplerName")
    case True
    then have "methods_loop lib f dir X_init y_init n ((m # ms) @ ms') serch_fs =
        bind_io (run_optimization lib f dir X_init y_init m n)
          (\<lambda>ys. methods_loop lib f dir X_init y_init n (ms @ ms') (AList.update m ys serch_fs))"
      by simp
    also have "\<dots> = bind_io (run_optimization lib f dir X_init y_init m n)
          (\<lambda>ys. bind_io (methods_loop lib f dir X_init y_init n ms (AList.update m ys serch_fs))
                   (methods_loop lib f dir X_init y_init n ms'))"
      using Cons.IH by presburger
    finally show ?thesis using True by (simp add: bind_io_assoc)
  next
    case False
    have "bind_io (raise_io AttributeError) (methods_loop lib f dir X_init y_init n ms')
        = raise_io AttributeError"
      by (rule ext) (simp add: bind_io_def raise_io_def)
    then show ?thesis using False by simp
  qed
qed

text \<open>
  Claim C9: in the loop of \<^verbatim>\<open>main\<close> over the strategies, every strategy \<open>method\<close> (whatever
  ran \<open>before\<close> it) enters its loop with copies of the initial batch, in new arrays, whose
  contents are those of \<^verbatim>\<open>X_init\<close> and \<^verbatim>\<open>y_init\<close> as they were before any strategy ran; its run
  returns a new array and leaves \<^verbatim>\<open>X_init\<close>, \<^verbatim>\<open>y_init\<close> and the array of the random-search
  baseline as they were; and at the end of the loop no array that existed before it has been
  written.
\<close>

theorem initial_batch_never_mutated:
  assumes "X_init < length (heap st)" and "y_init < length (heap st)"
    and "ys_random < length (heap st)"
    and "methods_loop lib f dir X_init y_init serch_num (before @ method # after)
           [(''Random'', ys_random)] st = (Inr serch_fs, st_end)"
  shows "\<exists>serch_fs1 st1 self Xs ys st2 result st3.
      methods_loop lib f dir X_init y_init serch_num before [(''Random'', ys_random)] st
        = (Inr serch_fs1, st1)
    \<and> loop_entry X_init y_init method st1 = (Inr (self, Xs, ys), st2)
    \<and> heap st2 ! Xs = heap st ! X_init \<and> heap st2 ! ys = heap st ! y_init
    \<and> length (heap st) \<le> Xs \<and> length (heap st) \<le> ys
    \<and> run_optimization lib f dir X_init y_init method serch_num st1 = (Inr result, st3)
    \<and> length (heap st) \<le> result
    \<and> heap st3 ! X_init = heap st ! X_init \<and> heap st3 ! y_init = heap st ! y_init
    \<and> heap st3 ! ys_random = heap st ! ys_random
    \<and> take (length (heap st)) (heap st_end) = heap st"
proof -
  from assms(4) obtain serch_fs1 st1 where
    before: "methods_loop lib f dir X_init y_init serch_num before [(''Random'', ys_random)] st
        = (Inr serch_fs1, st1)" and
    rest: "methods_loop lib f dir X_init y_init serch_num (method # after) serch_fs1 st1
        = (Inr serch_fs, st_end)"
    unfolding methods_loop_append by (rule bind_io_InrE)
  from rest obtain result st3 where
    run: "run_optimization lib f dir X_init y_init method serch_num st1 = (Inr result, st3)"
    by (auto simp: bind_io_Inr split: if_splits)
  have ext1: "extends st st1" using grows_methods_loop before by (rule growsD)
  have ext3: "extends st1 st3" using grows_run_optimization run by (rule growsD)
  have ext_end: "extends st st_end" using grows_methods_loop assms(4) by (rule growsD)
  have len1: "length (heap st) \<le> length (heap st1)" using ext1 by (rule extends_length)
  have v1: "X_init < length (heap st1)" "y_init < length (heap st1)"
    using assms(1,2) len1 by simp_all
  define st2 where "st2 = st1\<lparr>heap := heap st1 @ [heap st1 ! X_init, heap st1 ! y_init]\<rparr>"
  have entry: "loop_entry X_init y_init method st1
      = (Inr (Optimizer_init method, length (heap st1), Suc (length (heap st1))), st2)"
    by (simp add: loop_entry_eq [OF v1(2)] st2_def)
  have c1: "heap st2 ! length (heap st1) = heap st ! X_init"
    using extends_nth [OF ext1 assms(1)] by (simp add: st2_def)
  have c2: "heap st2 ! Suc (length (heap st1)) = heap st ! y_init"
    using extends_nth [OF ext1 assms(2)] by (simp add: st2_def nth_append)
  have fresh: "length (heap st) \<le> result"
    using run_optimization_fresh [OF v1 run] len1 by simp
  have ext03: "extends st st3" using ext1 ext3 by (rule extends_trans)
  have k: "heap st3 ! X_init = heap st ! X_init" "heap st3 ! y_init = heap st ! y_init"
    "heap st3 ! ys_random = heap st ! ys_random"
    using extends_nth [OF ext03] assms(1-3) by simp_all
  have t: "take (length (heap st)) (heap st_end) = heap st"
    using ext_end by (rule extends_take)
  have l1: "length (heap st) \<le> length (heap st1)" "length (heap st) \<le> Suc (length (heap st1))"
    using len1 by simp_all
  show ?thesis
    using before entry c1 c2 l1 run fresh k t by (intro exI conjI)
qed

theorem initial_batch_never_mutated_witness:
  "fst (methods_loop demo_optuna demo_function ''minimize'' 0 1 1 ([TPE] @ LCB # [])
          [(''Random'', 2)] demo_batch_state)
     = Inr [(''Random'', 2), (''TPE'', 8), (''LCB'', 14)]
   \<and> (\<exists>serch_fs1 st1 self Xs ys st2 result st3.
      methods_loop demo_optuna demo_function ''minimize'' 0 1 1 [TPE] [(''Random'', 2)] demo_batch_state
        = (Inr serch_fs1, st1)
    \<and> loop_entry 0 1 LCB st1 = (Inr (self, Xs, ys), st2)
    \<and> heap st2 ! Xs = heap demo_batch_state ! 0 \<and> heap st2 ! ys = heap demo_batch_state ! 1
    \<and> length (heap demo_batch_state) \<le> Xs \<and> length (heap demo_batch_state) \<le> ys
    \<and> run_optimization demo_optuna demo_function ''minimize'' 0 1 LCB 1 st1 = (Inr result, st3)
    \<and> length (heap demo_batch_state) \<le> result
    \<and> heap st3 ! 0 = heap demo_batch_state ! 0 \<and> heap st3 ! 1 = heap demo_batch_state ! 1
    \<and> heap st3 ! 2 = heap demo_batch_state ! 2
    \<and> take (length (heap demo_batch_state))
         (heap (snd (methods_loop demo_optuna demo_function ''minimize'' 0 1 1 ([TPE] @ LCB # [])
            [(''Random'', 2)] demo_batch_state)))
       = heap demo_batch_state)"
proof -
  have run: "fst (methods_loop demo_optuna demo_function ''minimize'' 0 1 1 ([TPE] @ LCB # [])
          [(''Random'', 2)] demo_batch_state)
     = Inr [(''Random'', 2), (''TPE'', 8), (''LCB'', 14)]"
    by code_simp
  then have st_end:
    "methods_loop demo_optuna demo_function ''minimize'' 0 1 1 ([TPE] @ LCB # [])
          [(''Random'', 2)] demo_batch_state
     = (Inr [(''Random'', 2), (''TPE'', 8), (''LCB'', 14)],
        snd (methods_loop demo_optuna demo_function ''minimize'' 0 1 1 ([TPE] @ LCB # [])
          [(''Random'', 2)] demo_batch_state))"
    by (simp add: prod_eq_iff)
  have v: "0 < length (heap demo_batch_state)" "1 < length (heap demo_batch_state)"
    "2 < length (heap demo_batch_state)"
    by (simp_all add: demo_batch_state_def)
  show ?thesis
    using run initial_batch_never_mutated [OF v st_end] by (intro conjI)
qed

section \<open>Completed runs exist\<close>

text \<open>
  The theorems above are about runs that complete. With a library that does not raise and
  a test function that keeps its shapes, every operation of the driver completes, up to
  \<^verbatim>\<open>main\<close> with its configuration of \<open>3\<close> trials of \<open>10 + 100\<close> rows. (A trial needs two rows
  in all: a column of one row is squeezed to a number, which \<^verbatim>\<open>pl.DataFrame\<close> refuses.)
\<close>

lemma well_behaved_interface: "well_behaved func \<Longrightarrow> target_function_interface func"
  unfolding well_behaved_def target_function_interface_def
  by (metis sum.inject(2))

lemma never_raises_suggest:
  "never_raises lib distributions \<Longrightarrow> p \<in> set distributions \<Longrightarrow> snd p \<noteq> OtherDistribution \<Longrightarrow>
   \<exists>v. suggest_answer lib h t p = Inr (Number v)"
  by (simp add: never_raises_def)

lemma set_samples_loop_completes:
  assumes "never_raises lib distributions" and "study self = Some h" and "\<forall>(X, y) \<in> set ps. y \<noteq> []"
  shows "\<exists>st'. set_samples_loop lib self ds ps st = (Inr (), st')"
  using assms(3)
proof (induction ps arbitrary: st)
  case Nil
  show ?case by simp
next
  case (Cons p ps)
  obtain X y where p: "p = (X, y)" by (cases p)
  from Cons.prems obtain y0 y' where y: "y = y0 # y'"
    by (cases y) (auto simp: p)
  have ps: "\<forall>(X, y) \<in> set ps. y \<noteq> []" using Cons.prems by simp
  let ?st1 = "st\<lparr>hist := hist st @ [AddTrial h (FrozenTrial (zip (map fst ds) X) ds y0)]\<rparr>"
  have "set_samples_loop lib self ds (p # ps) st = set_samples_loop lib self ds ps ?st1"
    using assms(1,2)
    by (simp add: p y never_raises_def Let_def bind_io_def lift_io_def raises_def external_def)
  then show ?case using Cons.IH [OF ps, of ?st1] by simp
qed

lemma suggest_loop_completes:
  assumes "never_raises lib distributions" and "set ds \<subseteq> set distributions"
  shows "\<exists>row st'. suggest_loop lib t ds acc st = (Inr (acc @ map Number row), st')
           \<and> length row = candidate_dim ds"
  using assms(2)
proof (induction ds arbitrary: acc st)
  case Nil
  have "suggest_loop lib t [] acc st = (Inr (acc @ map Number []), st) \<and> length [] = candidate_dim []"
    by (simp add: candidate_dim_def)
  then show ?case by blast
next
  case (Cons p ds)
  obtain feature d where p: "p = (feature, d)" by (cases p)
  have mem: "p \<in> set distributions" and ds: "set ds \<subseteq> set distributions"
    using Cons.prems by simp_all
  show ?case
  proof (cases "d = OtherDistribution")
    case True
    then show ?thesis
      using Cons.IH [OF ds, of acc st] by (simp add: p candidate_dim_def)
  next
    case False
    then obtain v where v: "suggest_answer lib (hist st) t p = Inr (Number v)"
      using never_raises_suggest [OF assms(1) mem, of "hist st" t] by (auto simp: p)
    let ?st1 = "st\<lparr>hist := hist st @ suggest_call t p\<rparr>"
    have step: "suggest_loop lib t (p # ds) acc st = suggest_loop lib t ds (acc @ [Number v]) ?st1"
      using v False by (cases d) (auto simp: p bind_io_def external_def split: sum.splits)
    from Cons.IH [OF ds, of "acc @ [Number v]" ?st1] obtain row st' where
      row: "suggest_loop lib t ds (acc @ [Number v]) ?st1 = (Inr ((acc @ [Number v]) @ map Number row), st')"
        "length row = candidate_dim ds"
      by blast
    have "suggest_loop lib t (p # ds) acc st = (Inr (acc @ map Number (v # row)), st')
        \<and> length (v # row) = candidate_dim (p # ds)"
      unfolding step using row False by (simp add: p candidate_dim_def)
    then show ?thesis by blast
  qed
qed

lemma get_candidate_completes:
  assumes "never_raises lib ds" and "study self = Some h"
    and "\<forall>y \<in> set (rows (heap st ! ys)). y \<noteq> []"
  shows "\<exists>st'. get_candidate lib self Xs ys ds st = (Inr (FloatArray (length (heap st))), st')
           \<and> (\<exists>row. length row = candidate_dim ds
                \<and> heap st' = heap st @ [\<lparr>ncols = candidate_dim ds, rows = [row]\<rparr>])"
proof -
  let ?ps = "zip (rows (heap st ! Xs)) (rows (heap st ! ys))"
  have "\<forall>(X, y) \<in> set ?ps. y \<noteq> []"
    using assms(3) by (auto dest: set_zip_rightD)
  from set_samples_loop_completes [OF assms(1,2) this, of ds st]
  obtain st1 where l: "set_samples_loop lib self ds ?ps st = (Inr (), st1)" by blast
  then have s: "set_samples lib self Xs ys ds st = (Inr (), st1)"
    by (simp add: set_samples_def bind_io_def deref_def)
  have h1: "heap st1 = heap st"
    using set_samples_Inr [OF s assms(2)] by simp
  let ?st2 = "st1\<lparr>hist := hist st1 @ [Ask h]\<rparr>"
  have ask: "external (Ask h) (\<lambda>hs. raises (optuna_ask lib hs h) (length hs)) st1
      = (Inr (length (hist st1)), ?st2)"
    using assms(1) by (simp add: never_raises_def external_def raises_def)
  from suggest_loop_completes [OF assms(1) subset_refl, of "length (hist st1)" "[]" ?st2]
  obtain row st3 where
    sl: "suggest_loop lib (length (hist st1)) ds [] ?st2 = (Inr (map Number row), st3)" and
    len: "length row = candidate_dim ds"
    by auto
  have h3: "heap st3 = heap st"
    using suggest_loop_state [OF sl] h1 by simp
  have num: "numbers (map Number row) = Some row" by (simp add: numbers_Some_iff)
  let ?st' = "st3\<lparr>heap := heap st3 @ [\<lparr>ncols = length row, rows = [row]\<rparr>]\<rparr>"
  have arr: "np_array_row (map Number row) st3 = (Inr (FloatArray (length (heap st3))), ?st')"
    by (simp add: np_array_row_Inr num)
  have "get_candidate lib self Xs ys ds st = (Inr (FloatArray (length (heap st3))), ?st')"
    by (simp add: get_candidate_def bind_io_def s assms(2) ask sl arr)
  then have "get_candidate lib self Xs ys ds st = (Inr (FloatArray (length (heap st))), ?st')
      \<and> length row = candidate_dim ds
      \<and> heap ?st' = heap st @ [\<lparr>ncols = candidate_dim ds, rows = [row]\<rparr>]"
    using len h3 by simp
  then show ?thesis by blast
qed

lemma well_behaved_f:
  "well_behaved func \<Longrightarrow>
   \<exists>y. func_f func X = Inr y \<and> ncols y = 1 \<and> length (rows y) = length (rows X)
      \<and> (\<forall>r \<in> set (rows y). r \<noteq> [])"
  by (simp add: well_behaved_def)

lemma well_behaved_random_x:
  "well_behaved func \<Longrightarrow>
   \<exists>X. func_random_x func h = Inr X \<and> ncols X = candidate_dim (func_distributions func)
      \<and> length (rows X) = 1"
  by (simp add: well_behaved_def)

lemma iteration_completes:
  assumes "never_raises lib (func_distributions func)" and "well_behaved func" and "sampler self = Some s"
    and "observations_ok (candidate_dim (func_distributions func)) st Xs ys"
  shows "\<exists>self' Xs' ys' st'. iteration lib func dir (self, Xs, ys) st = (Inr (self', Xs', ys'), st')
           \<and> sampler self' = Some s
           \<and> observations_ok (candidate_dim (func_distributions func)) st' Xs' ys'"
proof -
  let ?ds = "func_distributions func"
  let ?d = "candidate_dim ?ds"
  from assms(4) have vX: "Xs < length (heap st)" and vy: "ys < length (heap st)"
    and cX: "ncols (heap st ! Xs) = ?d" and cy: "ncols (heap st ! ys) = 1"
    and ne: "\<forall>y \<in> set (rows (heap st ! ys)). y \<noteq> []"
    by (simp_all add: observations_ok_def)
  define self1 where "self1 = self\<lparr>study := Some (length (hist st))\<rparr>"
  define st1 where "st1 = st\<lparr>hist := hist st @ [CreateStudy dir s]\<rparr>"
  have cs: "create_study lib self dir st = (Inr self1, st1)"
    using assms(1,3)
    by (simp add: create_study_def never_raises_def bind_io_def external_def raises_def
        return_io_def self1_def st1_def)
  have "study self1 = Some (length (hist st))" by (simp add: self1_def)
  moreover have "\<forall>y \<in> set (rows (heap st1 ! ys)). y \<noteq> []" using ne by (simp add: st1_def)
  ultimately obtain st2 row where
    gc: "get_candidate lib self1 Xs ys ?ds st1 = (Inr (FloatArray (length (heap st1))), st2)" and
    row: "length row = ?d" and
    h2: "heap st2 = heap st1 @ [\<lparr>ncols = ?d, rows = [row]\<rparr>]"
    using get_candidate_completes [OF assms(1), of self1 _ st1 ys Xs] by blast
  have h2': "heap st2 = heap st @ [\<lparr>ncols = ?d, rows = [row]\<rparr>]"
    by (simp add: h2 st1_def)
  have l1: "length (heap st1) = length (heap st)" by (simp add: st1_def)
  obtain y where y: "func_f func \<lparr>ncols = ?d, rows = [row]\<rparr> = Inr y" and yc: "ncols y = 1"
    and yl: "length (rows y) = 1" and yne: "\<forall>r \<in> set (rows y). r \<noteq> []"
    using well_behaved_f [OF assms(2), of "\<lparr>ncols = ?d, rows = [row]\<rparr>"] by auto
  define st3 where "st3 = st2\<lparr>heap := heap st2 @ [y]\<rparr>"
  have cf: "call_f func (length (heap st)) st2 = (Inr (Suc (length (heap st))), st3)"
    using y by (simp add: call_f_def bind_io_def deref_def lift_io_def alloc_def h2' st3_def)
  have h3: "heap st3 = heap st @ [\<lparr>ncols = ?d, rows = [row]\<rparr>, y]"
    by (simp add: st3_def h2')
  define Xs_new where
    "Xs_new = \<lparr>ncols = ncols (heap st ! Xs), rows = rows (heap st ! Xs) @ [row]\<rparr>"
  define st4 where "st4 = st3\<lparr>heap := heap st3 @ [Xs_new]\<rparr>"
  have c1: "np_concatenate Xs (length (heap st)) st3 = (Inr (length (heap st) + 2), st4)"
    using vX cX
    by (simp add: np_concatenate_def bind_io_def deref_def alloc_def h3 nth_append st4_def
        Xs_new_def)
  have h4: "heap st4 = heap st @ [\<lparr>ncols = ?d, rows = [row]\<rparr>, y, Xs_new]"
    by (simp add: st4_def h3)
  define ys_new where
    "ys_new = \<lparr>ncols = ncols (heap st ! ys), rows = rows (heap st ! ys) @ rows y\<rparr>"
  define st5 where "st5 = st4\<lparr>heap := heap st4 @ [ys_new]\<rparr>"
  have c2: "np_concatenate ys (Suc (length (heap st))) st4 = (Inr (length (heap st) + 3), st5)"
    using vy cy yc
    by (simp add: np_concatenate_def bind_io_def deref_def alloc_def h4 nth_append st5_def
        ys_new_def)
  have h5: "heap st5 = heap st @ [\<lparr>ncols = ?d, rows = [row]\<rparr>, y, Xs_new, ys_new]"
    by (simp add: st5_def h4)
  have run: "iteration lib func dir (self, Xs, ys) st
      = (Inr (self1, length (heap st) + 2, length (heap st) + 3), st5)"
    by (simp add: iteration_def bind_io_def cs gc l1 cf c1 c2 return_io_def
        del: call_f_Inr np_concatenate_Inr)
  have ok: "observations_ok ?d st5 (length (heap st) + 2) (length (heap st) + 3)"
    using cX cy ne yne
    by (auto simp: observations_ok_def h5 nth_append Xs_new_def ys_new_def)
  have "sampler self1 = Some s" using assms(3) by (simp add: self1_def)
  with run ok show ?thesis by blast
qed

lemma iterations_completes:
  assumes "never_raises lib (func_distributions func)" and "well_behaved func" and "sampler self = Some s"
    and "observations_ok (candidate_dim (func_distributions func)) st Xs ys"
  shows "\<exists>v' st'. iterations lib func dir n (self, Xs, ys) st = (Inr v', st')"
  using assms(3,4)
proof (induction n arbitrary: self Xs ys st)
  case 0
  show ?case by simp
next
  case (Suc n)
  from iteration_completes [OF assms(1,2) Suc.prems]
  obtain self' Xs' ys' st' where
    it: "iteration lib func dir (self, Xs, ys) st = (Inr (self', Xs', ys'), st')" and
    s: "sampler self' = Some s" and
    ok: "observations_ok (candidate_dim (func_distributions func)) st' Xs' ys'"
    by blast
  from Suc.IH [OF s ok] show ?case
    using it by (simp add: bind_io_def)
qed

lemma Optimizer_init_recognized:
  "sampler_name \<in> set SamplerName \<Longrightarrow> \<exists>s. sampler (Optimizer_init sampler_name) = Some s"
  by (auto simp: SamplerName_def Optimizer_init_def)

lemma run_optimization_completes:
  assumes "never_raises lib (func_distributions func)" and "well_behaved func" and "sampler_name \<in> set SamplerName"
    and "observations_ok (candidate_dim (func_distributions func)) st X_init y_init"
  shows "\<exists>result st'. run_optimization lib func dir X_init y_init sampler_name iters st
           = (Inr result, st')"
proof -
  let ?d = "candidate_dim (func_distributions func)"
  from assms(4) have vX: "X_init < length (heap st)" and vy: "y_init < length (heap st)"
    by (simp_all add: observations_ok_def)
  define st1 where "st1 = st\<lparr>heap := heap st @ [heap st ! X_init, heap st ! y_init]\<rparr>"
  have entry: "loop_entry X_init y_init sampler_name st
      = (Inr (Optimizer_init sampler_name, length (heap st), Suc (length (heap st))), st1)"
    by (simp add: loop_entry_eq [OF vy] st1_def)
  have ok: "observations_ok ?d st1 (length (heap st)) (Suc (length (heap st)))"
    using assms(4) by (simp add: observations_ok_def st1_def nth_append)
  obtain s where s: "sampler (Optimizer_init sampler_name) = Some s"
    using Optimizer_init_recognized [OF assms(3)] by blast
  from iterations_completes [OF assms(1,2) s ok, of dir iters]
  obtain v' st' where
    "iterations lib func dir iters
       (Optimizer_init sampler_name, length (heap st), Suc (length (heap st))) st1 = (Inr v', st')"
    by blast
  then show ?thesis
    using entry by (cases v') (simp add: run_optimization_def bind_io_def return_io_def)
qed

lemma observations_ok_extends:
  assumes "extends st st'" and "observations_ok d st Xs ys"
  shows "observations_ok d st' Xs ys"
proof -
  from assms(2) have v: "Xs < length (heap st)" "ys < length (heap st)"
    by (simp_all add: observations_ok_def)
  have "heap st' ! Xs = heap st ! Xs" "heap st' ! ys = heap st ! ys"
    using extends_nth [OF assms(1)] v by simp_all
  moreover have "length (heap st) \<le> length (heap st')"
    using assms(1) by (rule extends_length)
  ultimately show ?thesis using assms(2) by (simp add: observations_ok_def)
qed

lemma draw_completes:
  assumes "well_behaved f"
  shows "\<exists>x y. call_random_x f st
             = (Inr (length (heap st)), st\<lparr>hist := hist st @ [RandomX], heap := heap st @ [x]\<rparr>)
         \<and> call_f f (length (heap st)) (st\<lparr>hist := hist st @ [RandomX], heap := heap st @ [x]\<rparr>)
             = (Inr (Suc (length (heap st))),
                st\<lparr>hist := hist st @ [RandomX], heap := heap st @ [x, y]\<rparr>)
         \<and> ncols x = candidate_dim (func_distributions f) \<and> ncols y = 1
         \<and> (\<forall>r \<in> set (rows y). r \<noteq> [])"
proof -
  obtain x where x: "func_random_x f (hist st) = Inr x"
    and cx: "ncols x = candidate_dim (func_distributions f)"
    using well_behaved_random_x [OF assms, of "hist st"] by auto
  obtain y where y: "func_f f x = Inr y" and cy: "ncols y = 1"
    and ne: "\<forall>r \<in> set (rows y). r \<noteq> []"
    using well_behaved_f [OF assms, of x] by auto
  have "call_random_x f st
      = (Inr (length (heap st)), st\<lparr>hist := hist st @ [RandomX], heap := heap st @ [x]\<rparr>)"
    using x by (simp add: call_random_x_def bind_io_def external_def alloc_def)
  moreover have "call_f f (length (heap st))
        (st\<lparr>hist := hist st @ [RandomX], heap := heap st @ [x]\<rparr>)
      = (Inr (Suc (length (heap st))), st\<lparr>hist := hist st @ [RandomX], heap := heap st @ [x, y]\<rparr>)"
    using y by (simp add: call_f_def bind_io_def deref_def lift_io_def alloc_def)
  ultimately show ?thesis using cx cy ne by blast
qed

lemma initial_batch_loop_completes:
  assumes "well_behaved f"
    and "observations_ok (candidate_dim (func_distributions f)) st X_init y_init"
  shows "\<exists>X' y' st'. initial_batch_loop f n (X_init, y_init) st = (Inr (X', y'), st')
           \<and> observations_ok (candidate_dim (func_distributions f)) st' X' y'"
  using assms(2)
proof (induction n arbitrary: X_init y_init st)
  case 0
  then show ?case by simp
next
  case (Suc n)
  let ?d = "candidate_dim (func_distributions f)"
  from Suc.prems have vX: "X_init < length (heap st)" and vy: "y_init < length (heap st)"
    and cX: "ncols (heap st ! X_init) = ?d" and cy: "ncols (heap st ! y_init) = 1"
    and ne: "\<forall>y \<in> set (rows (heap st ! y_init)). y \<noteq> []"
    by (simp_all add: observations_ok_def)
  from draw_completes [OF assms(1), of st] obtain x y where
    rx: "call_random_x f st
          = (Inr (length (heap st)), st\<lparr>hist := hist st @ [RandomX], heap := heap st @ [x]\<rparr>)" and
    cf: "call_f f (length (heap st)) (st\<lparr>hist := hist st @ [RandomX], heap := heap st @ [x]\<rparr>)
          = (Inr (Suc (length (heap st))),
             st\<lparr>hist := hist st @ [RandomX], heap := heap st @ [x, y]\<rparr>)" and
    x: "ncols x = ?d" and y: "ncols y = 1" "\<forall>r \<in> set (rows y). r \<noteq> []"
    by blast
  define X_new where
    "X_new = \<lparr>ncols = ncols (heap st ! X_init), rows = rows (heap st ! X_init) @ rows x\<rparr>"
  define y_new where
    "y_new = \<lparr>ncols = ncols (heap st ! y_init), rows = rows (heap st ! y_init) @ rows y\<rparr>"
  define st1 where
    "st1 = st\<lparr>hist := hist st @ [RandomX], heap := heap st @ [x, y, X_new, y_new]\<rparr>"
  have c1: "np_concatenate X_init (length (heap st))
        (st\<lparr>hist := hist st @ [RandomX], heap := heap st @ [x, y]\<rparr>)
      = (Inr (length (heap st) + 2),
         st\<lparr>hist := hist st @ [RandomX], heap := heap st @ [x, y, X_new]\<rparr>)"
    using vX cX x
    by (simp add: np_concatenate_def bind_io_def deref_def alloc_def nth_append X_new_def)
  have c2: "np_concatenate y_init (Suc (length (heap st)))
        (st\<lparr>hist := hist st @ [RandomX], heap := heap st @ [x, y, X_new]\<rparr>)
      = (Inr (length (heap st) + 3), st1)"
    using vy cy y(1)
    by (simp add: np_concatenate_def bind_io_def deref_def alloc_def nth_append y_new_def st1_def)
  have step: "initial_batch_loop f (Suc n) (X_init, y_init) st
      = initial_batch_loop f n (length (heap st) + 2, length (heap st) + 3) st1"
    by (simp add: bind_io_def rx cf c1 c2
        del: call_random_x_Inr call_f_Inr np_concatenate_Inr)
  have ok: "observations_ok ?d st1 (length (heap st) + 2) (length (heap st) + 3)"
    using cX cy ne y(2)
    by (auto simp: observations_ok_def st1_def nth_append X_new_def y_new_def)
  from Suc.IH [OF ok] show ?case unfolding step .
qed

lemma initial_batch_completes:
  assumes "well_behaved f"
  shows "\<exists>X_init y_init st'. initial_batch f init_num st = (Inr (X_init, y_init), st')
           \<and> observations_ok (candidate_dim (func_distributions f)) st' X_init y_init"
proof -
  let ?d = "candidate_dim (func_distributions f)"
  from draw_completes [OF assms, of st] obtain x y where
    rx: "call_random_x f st
          = (Inr (length (heap st)), st\<lparr>hist := hist st @ [RandomX], heap := heap st @ [x]\<rparr>)" and
    cf: "call_f f (length (heap st)) (st\<lparr>hist := hist st @ [RandomX], heap := heap st @ [x]\<rparr>)
          = (Inr (Suc (length (heap st))),
             st\<lparr>hist := hist st @ [RandomX], heap := heap st @ [x, y]\<rparr>)" and
    x: "ncols x = ?d" and y: "ncols y = 1" "\<forall>r \<in> set (rows y). r \<noteq> []"
    by blast
  let ?st1 = "st\<lparr>hist := hist st @ [RandomX], heap := heap st @ [x, y]\<rparr>"
  have step: "initial_batch f init_num st
      = initial_batch_loop f (init_num - 1) (length (heap st), Suc (length (heap st))) ?st1"
    by (simp add: initial_batch_def bind_io_def rx cf del: call_random_x_Inr call_f_Inr)
  have ok: "observations_ok ?d ?st1 (length (heap st)) (Suc (length (heap st)))"
    using x y by (simp add: observations_ok_def nth_append)
  from initial_batch_loop_completes [OF assms ok] show ?thesis unfolding step .
qed

lemma random_search_loop_completes:
  assumes "well_behaved f"
    and "ys_random < length (heap st)" and "ncols (heap st ! ys_random) = 1"
  shows "\<exists>r st'. random_search_loop f n ys_random st = (Inr r, st')"
  using assms(2,3)
proof (induction n arbitrary: ys_random st)
  case 0
  show ?case by simp
next
  case (Suc n)
  from draw_completes [OF assms(1), of st] obtain x y where
    rx: "call_random_x f st
          = (Inr (length (heap st)), st\<lparr>hist := hist st @ [RandomX], heap := heap st @ [x]\<rparr>)" and
    cf: "call_f f (length (heap st)) (st\<lparr>hist := hist st @ [RandomX], heap := heap st @ [x]\<rparr>)
          = (Inr (Suc (length (heap st))),
             st\<lparr>hist := hist st @ [RandomX], heap := heap st @ [x, y]\<rparr>)" and
    y: "ncols y = 1"
    by blast
  define y_new where
    "y_new = \<lparr>ncols = ncols (heap st ! ys_random), rows = rows (heap st ! ys_random) @ rows y\<rparr>"
  define st1 where "st1 = st\<lparr>hist := hist st @ [RandomX], heap := heap st @ [x, y, y_new]\<rparr>"
  have c: "np_concatenate ys_random (Suc (length (heap st)))
        (st\<lparr>hist := hist st @ [RandomX], heap := heap st @ [x, y]\<rparr>)
      = (Inr (length (heap st) + 2), st1)"
    using Suc.prems y
    by (simp add: np_concatenate_def bind_io_def deref_def alloc_def nth_append y_new_def st1_def)
  have step: "random_search_loop f (Suc n) ys_random st
      = random_search_loop f n (length (heap st) + 2) st1"
    by (simp add: bind_io_def rx cf c del: call_random_x_Inr call_f_Inr np_concatenate_Inr)
  have "length (heap st) + 2 < length (heap st1)" "ncols (heap st1 ! (length (heap st) + 2)) = 1"
    using Suc.prems(2) by (simp_all add: st1_def nth_append y_new_def)
  from Suc.IH [OF this] show ?case unfolding step .
qed

lemma methods_loop_completes:
  assumes "never_raises lib (func_distributions f)" and "well_behaved f" and "set ms \<subseteq> set SamplerName"
    and "observations_ok (candidate_dim (func_distributions f)) st X_init y_init"
  shows "\<exists>serch_fs' st'. methods_loop lib f dir X_init y_init n ms serch_fs st = (Inr serch_fs', st')"
  using assms(3,4)
proof (induction ms arbitrary: serch_fs st)
  case Nil
  show ?case by simp
next
  case (Cons m ms)
  have m: "m \<in> set SamplerName" and ms: "set ms \<subseteq> set SamplerName"
    using Cons.prems(1) by simp_all
  from run_optimization_completes [OF assms(1,2) m Cons.prems(2), of dir n]
  obtain ys st1 where
    run: "run_optimization lib f dir X_init y_init m n st = (Inr ys, st1)"
    by blast
  have "extends st st1" using grows_run_optimization run by (rule growsD)
  then have ok: "observations_ok (candidate_dim (func_distributions f)) st1 X_init y_init"
    using Cons.prems(2) by (rule observations_ok_extends)
  from Cons.IH [OF ms ok, of "AList.update m ys serch_fs"] show ?case
    using m run by (simp add: bind_io_def)
qed

lemma trial_completes:
  assumes "never_raises lib (func_distributions f)" and "well_behaved f" and "set methods \<subseteq> set SamplerName"
    and "2 \<le> init_num + serch_num"
  shows "\<exists>table st'. trial lib f dir init_num serch_num methods st = (Inr table, st')"
proof -
  let ?d = "candidate_dim (func_distributions f)"
  from initial_batch_completes [OF assms(2), of init_num st]
  obtain X_init y_init st1 where
    ib: "initial_batch f init_num st = (Inr (X_init, y_init), st1)" and
    ok1: "observations_ok ?d st1 X_init y_init"
    by blast
  define st2 where "st2 = st1\<lparr>heap := heap st1 @ [heap st1 ! y_init]\<rparr>"
  have cp: "np_copy y_init st1 = (Inr (length (heap st1)), st2)"
    by (simp add: st2_def)
  have "length (heap st1) < length (heap st2)" "ncols (heap st2 ! length (heap st1)) = 1"
    using ok1 by (simp_all add: st2_def observations_ok_def)
  from random_search_loop_completes [OF assms(2) this, of serch_num]
  obtain ys_random' st3 where
    rs: "random_search_loop f serch_num (length (heap st1)) st2 = (Inr ys_random', st3)"
    by blast
  have "extends st1 st3"
  proof (rule extends_trans)
    show "extends st1 st2" using grows_np_copy cp by (rule growsD)
    show "extends st2 st3" using grows_random_search_loop rs by (rule growsD)
  qed
  then have ok3: "observations_ok ?d st3 X_init y_init"
    using ok1 by (rule observations_ok_extends)
  from methods_loop_completes [OF assms(1,2,3) ok3, of dir serch_num "[(''Random'', ys_random')]"]
  obtain serch_fs st4 where
    ml: "methods_loop lib f dir X_init y_init serch_num methods [(''Random'', ys_random')] st3
           = (Inr serch_fs, st4)"
    by blast
  note interface = well_behaved_interface [OF assms(2)]
  have cols: "\<forall>(name, r) \<in> set serch_fs.
      r < length (heap st4) \<and> extends_batch (heap st1 ! y_init) serch_num (heap st4 ! r)"
    using interface ib cp rs ml by (rule serch_fs_Inr)
  from initial_batch_Inr [OF interface ib]
  have y0: "ncols (heap st1 ! y_init) = 1" "length (rows (heap st1 ! y_init)) = Suc (init_num - 1)"
    by simp_all
  have "ncols (heap st4 ! r) = 1 \<and> length (rows (heap st4 ! r)) \<noteq> 1"
    if "(name, r) \<in> set serch_fs" for name r
  proof -
    from cols that have "extends_batch (heap st1 ! y_init) serch_num (heap st4 ! r)" by auto
    then show ?thesis using y0 assms(4) by (auto simp: extends_batch_def)
  qed
  then have "\<forall>(name, r) \<in> set serch_fs.
      ncols (heap st4 ! r) = 1 \<and> length (rows (heap st4 ! r)) \<noteq> 1"
    by blast
  then have df: "DataFrame serch_fs st4
      = (Inr (map (\<lambda>(name, r). (name, squeeze (heap st4 ! r))) serch_fs), st4)"
    by (rule DataFrame_columns)
  have "trial lib f dir init_num serch_num methods st
      = (Inr (map (\<lambda>(name, r). (name, squeeze (heap st4 ! r))) serch_fs), st4)"
    by (simp add: trial_def bind_io_def ib cp rs ml df del: np_copy_eq)
  then show ?thesis by blast
qed

lemma use_methods_members: "set use_methods \<subseteq> set SamplerName"
  by (simp add: use_methods_def SamplerName_def)

lemma trials_completes:
  assumes "never_raises lib (func_distributions f)" and "well_behaved f"
  shows "\<exists>dfs st'. trials lib f n st = (Inr dfs, st') \<and> length dfs = n"
proof (induction n arbitrary: st)
  case 0
  show ?case by simp
next
  case (Suc n)
  have "2 \<le> INIT_NUM + SERCH_NUM" by (simp add: INIT_NUM_def SERCH_NUM_def)
  from trial_completes [OF assms use_methods_members this, of direction st]
  obtain df st1 where
    t: "trial lib f direction INIT_NUM SERCH_NUM use_methods st = (Inr df, st1)"
    by blast
  from Suc.IH [of st1] obtain dfs st' where
    ts: "trials lib f n st1 = (Inr dfs, st')" and l: "length dfs = n"
    by blast
  have "trials lib f (Suc n) st = (Inr (df # dfs), st')"
    by (simp add: bind_io_def t ts return_io_def)
  then show ?case using l by simp
qed

lemma main_completes:
  assumes "never_raises lib (func_distributions f)" and "well_behaved f"
  shows "\<exists>dfs st'. main lib f st = (Inr dfs, st') \<and> length dfs = 3"
  using trials_completes [OF assms, of EXP_NUM st] by (simp add: main_def EXP_NUM_def)

lemma demo_never_raises: "never_raises demo_optuna (func_distributions demo_function)"
  by (simp add: never_raises_def demo_optuna_def demo_function_def)

lemma demo_well_behaved: "well_behaved demo_function"
  by (simp add: well_behaved_def demo_function_def candidate_dim_def)

lemma main_demo_completes:
  "\<exists>dfs st'. main demo_optuna demo_function start = (Inr dfs, st') \<and> length dfs = 3
     \<and> (\<forall>table \<in> set dfs. \<forall>(name, column) \<in> set table.
           \<exists>values. column = Vector values \<and> length values = 110)"
proof -
  from main_completes [OF demo_never_raises demo_well_behaved, of start]
  obtain dfs st' where m: "main demo_optuna demo_function start = (Inr dfs, st')"
    and l: "length dfs = 3"
    by blast
  have "\<forall>table \<in> set dfs. \<forall>(name, column) \<in> set table.
           \<exists>values. column = Vector values \<and> length values = 110"
    using main_columns [OF demo_function_interface m] by blast
  with m l show ?thesis by blast
qed

end
